theory Spec2Isabelle
  imports Main "HOL-Library.Sublist"
begin

section \<open>Go strings as byte lists\<close>

text \<open>
  A Go \<^verbatim>\<open>string\<close> is a sequence of bytes; it is modelled as a \<^typ>\<open>string\<close>, a list of
  8-bit characters.  The functions of Go's \<^verbatim>\<open>strings\<close> package that the program calls are
  written out below, following the standard library: \<^verbatim>\<open>Index\<close> finds the first occurrence
  of a substring, and \<^verbatim>\<open>Split\<close> and \<^verbatim>\<open>ReplaceAll\<close> walk the string from the left, each
  time jumping over the occurrence that \<^verbatim>\<open>Index\<close> found (occurrences never overlap).
\<close>

fun strings_Index :: "string \<Rightarrow> string \<Rightarrow> nat option" where
  "strings_Index [] sub = (if sub = [] then Some 0 else None)"
| "strings_Index (c # cs) sub =
     (if prefix sub (c # cs) then Some 0 else map_option Suc (strings_Index cs sub))"

definition strings_Contains :: "string \<Rightarrow> string \<Rightarrow> bool" where
  "strings_Contains s substr = (strings_Index s substr \<noteq> None)"

lemma strings_Index_bound:
  "strings_Index s sub = Some m \<Longrightarrow> m + length sub \<le> length s"
proof (induction s arbitrary: m)
  case Nil
  then show ?case by (simp split: if_splits)
next
  case (Cons c cs)
  show ?case
  proof (cases "prefix sub (c # cs)")
    case True
    with Cons.prems show ?thesis by (auto dest: prefix_length_le)
  next
    case False
    with Cons.prems obtain k where "strings_Index cs sub = Some k" "m = Suc k"
      by auto
    with Cons.IH show ?thesis by fastforce
  qed
qed

text \<open>
  \<^verbatim>\<open>strings.Split(s, sep)\<close>.  The program only splits on the literal \<^verbatim>\<open>" and "\<close>.  For an
  empty separator Go cuts the string into its UTF-8 sequences; the model cuts it into bytes
  there, which is the same on ASCII text.
\<close>

function strings_Split :: "string \<Rightarrow> string \<Rightarrow> string list" where
  "strings_Split s sep =
     (if sep = [] then map (\<lambda>c. [c]) s
      else (case strings_Index s sep of
              None \<Rightarrow> [s]
            | Some m \<Rightarrow> take m s # strings_Split (drop (m + length sep) s) sep))"
  by pat_completeness auto
termination
proof (relation "measure (\<lambda>(s, sep). length s)")
  show "wf (measure (\<lambda>(s, sep). length s))" by simp
next
  fix s sep :: string and m :: nat
  assume "sep \<noteq> []" and "strings_Index s sep = Some m"
  then have "m + length sep \<le> length s" and "0 < length sep"
    by (auto dest: strings_Index_bound)
  then have "length s - (m + length sep) < length s"
    by arith
  then show "((drop (m + length sep) s, sep), (s, sep)) \<in> measure (\<lambda>(s, sep). length s)"
    by simp
qed

declare strings_Split.simps [simp del]

text \<open>
  \<^verbatim>\<open>strings.ReplaceAll(s, old, new)\<close>.  Every call of the program passes a non-empty
  \<^verbatim>\<open>old\<close> (a literal, or a table name followed by a dot).  For an empty \<^verbatim>\<open>old\<close> Go inserts
  \<^verbatim>\<open>new\<close> around every UTF-8 sequence; the model does so around every byte.
\<close>

function strings_ReplaceAll :: "string \<Rightarrow> string \<Rightarrow> string \<Rightarrow> string" where
  "strings_ReplaceAll s old new =
     (if old = [] then new @ concat (map (\<lambda>c. c # new) s)
      else (case strings_Index s old of
              None \<Rightarrow> s
            | Some m \<Rightarrow> take m s @ new @ strings_ReplaceAll (drop (m + length old) s) old new))"
  by pat_completeness auto
termination
proof (relation "measure (\<lambda>(s, old, new). length s)")
  show "wf (measure (\<lambda>(s, old, new). length s))" by simp
next
  fix s old new :: string and m :: nat
  assume "old \<noteq> []" and "strings_Index s old = Some m"
  then have "m + length old \<le> length s" and "0 < length old"
    by (auto dest: strings_Index_bound)
  then have "length s - (m + length old) < length s"
    by arith
  then show "((drop (m + length old) s, old, new), (s, old, new))
      \<in> measure (\<lambda>(s, old, new). length s)"
    by simp
qed

declare strings_ReplaceAll.simps [simp del]

fun strings_Join :: "string list \<Rightarrow> string \<Rightarrow> string" where
  "strings_Join [] sep = []"
| "strings_Join [x] sep = x"
| "strings_Join (x # y # zs) sep = x @ sep @ strings_Join (y # zs) sep"

text \<open>
  \<^verbatim>\<open>strings.TrimSpace\<close> removes leading and trailing white space as Unicode defines it.  On
  bytes this is: the six ASCII characters tab, line feed, vertical tab, form feed, carriage
  return and space, and the UTF-8 encodings of U+0085, U+00A0, U+1680, U+2000 to U+200A,
  U+2028, U+2029, U+202F, U+205F and U+3000.  No encoding is a prefix or a suffix of another
  one, so decoding forwards from the start and backwards from the end both amount to
  stripping one of these byte sequences at a time.
\<close>

definition spaceRunes :: "string list" where
  "spaceRunes =
     [[CHR 0x09], [CHR 0x0A], [CHR 0x0B], [CHR 0x0C], [CHR 0x0D], [CHR 0x20],
      [CHR 0xC2, CHR 0x85], [CHR 0xC2, CHR 0xA0],
      [CHR 0xE1, CHR 0x9A, CHR 0x80],
      [CHR 0xE2, CHR 0x80, CHR 0x80], [CHR 0xE2, CHR 0x80, CHR 0x81],
      [CHR 0xE2, CHR 0x80, CHR 0x82], [CHR 0xE2, CHR 0x80, CHR 0x83],
      [CHR 0xE2, CHR 0x80, CHR 0x84], [CHR 0xE2, CHR 0x80, CHR 0x85],
      [CHR 0xE2, CHR 0x80, CHR 0x86], [CHR 0xE2, CHR 0x80, CHR 0x87],
      [CHR 0xE2, CHR 0x80, CHR 0x88], [CHR 0xE2, CHR 0x80, CHR 0x89],
      [CHR 0xE2, CHR 0x80, CHR 0x8A],
      [CHR 0xE2, CHR 0x80, CHR 0xA8], [CHR 0xE2, CHR 0x80, CHR 0xA9],
      [CHR 0xE2, CHR 0x80, CHR 0xAF], [CHR 0xE2, CHR 0x81, CHR 0x9F],
      [CHR 0xE3, CHR 0x80, CHR 0x80]]"

fun trimLeftRunes :: "string list \<Rightarrow> string \<Rightarrow> string" where
  "trimLeftRunes rs [] = []"
| "trimLeftRunes rs (c # cs) =
     (case List.find (\<lambda>e. e \<noteq> [] \<and> prefix e (c # cs)) rs of
        None \<Rightarrow> c # cs
      | Some e \<Rightarrow> trimLeftRunes rs (drop (length e - 1) cs))"

definition strings_TrimSpace :: "string \<Rightarrow> string" where
  "strings_TrimSpace s =
     rev (trimLeftRunes (map rev spaceRunes) (rev (trimLeftRunes spaceRunes s)))"

section \<open>PerTableFilterSplitter: \<^verbatim>\<open>FilterWhereForTable\<close>\<close>

text \<open>
  The program has the function twice, as \<^verbatim>\<open>FilterWhereForTable\<close> of the package
  \<^verbatim>\<open>cmd\<close> and as \<^verbatim>\<open>filterWhereForTable\<close> of the older \<^verbatim>\<open>main\<close>; the two bodies are the
  same.

  The inner loop: does the condition contain \<^verbatim>\<open>tbl + "."\<close> for some table of the
  statement?  The loop stops at the first table that matches.
\<close>

fun hasTablePrefix :: "string \<Rightarrow> string list \<Rightarrow> bool" where
  "hasTablePrefix condition [] = False"
| "hasTablePrefix condition (tbl # tbls) =
     (if strings_Contains condition (tbl @ ''.'') then True
      else hasTablePrefix condition tbls)"

text \<open>
  The outer loop over the conditions; \<open>relevantConditions\<close> is the slice the source
  appends to.
\<close>

fun filterLoop :: "string \<Rightarrow> string list \<Rightarrow> string list \<Rightarrow> string list \<Rightarrow> string list" where
  "filterLoop tableName allTables [] relevantConditions = relevantConditions"
| "filterLoop tableName allTables (c # conditions) relevantConditions =
     (let condition = strings_TrimSpace c in
      if strings_Contains condition (tableName @ ''.'') then
        filterLoop tableName allTables conditions
          (relevantConditions @ [strings_ReplaceAll condition (tableName @ ''.'') []])
      else if hasTablePrefix condition allTables then
        filterLoop tableName allTables conditions relevantConditions
      else
        filterLoop tableName allTables conditions (relevantConditions @ [condition]))"

definition FilterWhereForTable :: "string \<Rightarrow> string \<Rightarrow> string list \<Rightarrow> string" where
  "FilterWhereForTable whereFilter tableName allTables =
     (if whereFilter = [] then []
      else if length allTables \<le> 1 then whereFilter
      else
        (let conditions = strings_Split whereFilter '' and '';
             relevantConditions = filterLoop tableName allTables conditions []
         in if length relevantConditions = 0 then []
            else strings_Join relevantConditions '' and ''))"

section \<open>Word characters\<close>

text \<open>
  Word characters are those of the regular-expression class \<^verbatim>\<open>\w\<close>: ASCII digits, ASCII
  letters and the underscore.
\<close>

definition isWordChar :: "char \<Rightarrow> bool" where
  "isWordChar c =
     (let n = (of_char c :: nat) in
      (48 \<le> n \<and> n \<le> 57) \<or> (65 \<le> n \<and> n \<le> 90) \<or> n = 95 \<or> (97 \<le> n \<and> n \<le> 122))"

section \<open>WhereRenderer: the clean-up of the serialized WHERE text\<close>

text \<open>
  The regular expressions of the program are literal patterns, so their matching is written
  out on bytes.  (Go's \<^verbatim>\<open>regexp\<close> reads the text as UTF-8; on valid UTF-8 text a literal
  pattern matches at the same places on bytes.)

  \<^verbatim>\<open>regexp.MustCompile(`_UTF8MB4'(.*?)'`).ReplaceAllString(filter, "'$1'")\<close>: a match starts
  at the text \<^verbatim>\<open>_UTF8MB4'\<close> (the nine bytes \<open>charsetOpen\<close>) and ends at the first quote after it, provided no line feed
  comes before that quote (\<^verbatim>\<open>.\<close> does not match a line feed); it is replaced by the quoted
  group, and the search goes on behind the match.  \<open>closingQuote\<close> finds that quote.
\<close>

definition charsetOpen :: string where
  "charsetOpen = ''_UTF8MB4'' @ [CHR 0x27]"

fun closingQuote :: "string \<Rightarrow> nat option" where
  "closingQuote [] = None"
| "closingQuote (c # cs) =
     (if c = CHR 0x27 then Some 0
      else if c = CHR 0x0A then None
      else map_option Suc (closingQuote cs))"

function reUTF8MB4_ReplaceAllString :: "string \<Rightarrow> string" where
  "reUTF8MB4_ReplaceAllString [] = []"
| "reUTF8MB4_ReplaceAllString (c # cs) =
     (if prefix charsetOpen (c # cs) then
        (case closingQuote (drop 8 cs) of
           Some k \<Rightarrow>
             CHR 0x27 # take k (drop 8 cs) @
             CHR 0x27 # reUTF8MB4_ReplaceAllString (drop (Suc k) (drop 8 cs))
         | None \<Rightarrow> c # reUTF8MB4_ReplaceAllString cs)
      else c # reUTF8MB4_ReplaceAllString cs)"
  by pat_completeness auto
termination
  by (relation "measure length") auto

text \<open>
  The replacement text of \<^verbatim>\<open>ReplaceAllString\<close> is a template: \<^verbatim>\<open>$name\<close> and \<^verbatim>\<open>${name}\<close>
  stand for a group of the match and \<^verbatim>\<open>$$\<close> for a dollar sign.  \<open>templateName\<close> is
  \<^verbatim>\<open>extract\<close> of Go's \<^verbatim>\<open>regexp\<close> package: the name behind a dollar sign and the rest of the
  template, or \<open>None\<close> when the reference is malformed.  Go takes every Unicode letter
  and digit and the underscore into a name; the model takes the ASCII ones, so it differs
  from Go on a template in which a dollar sign is followed by letters or digits outside
  ASCII.  A template without a dollar sign is expanded to itself by both.
\<close>

definition templateName :: "string \<Rightarrow> (string \<times> string) option" where
  "templateName str =
     (let brace = (str \<noteq> [] \<and> hd str = CHR ''{'');
          str' = (if brace then tl str else str);
          name = takeWhile isWordChar str';
          rest = dropWhile isWordChar str'
      in if name = [] then None
         else if brace then
           (case rest of
              [] \<Rightarrow> None
            | r # rest' \<Rightarrow> if r = CHR ''}'' then Some (name, rest') else None)
         else Some (name, rest))"

lemma templateName_shorter:
  "templateName str = Some (name, rest) \<Longrightarrow> length rest \<le> length str"
proof -
  have le: "length (dropWhile isWordChar xs) \<le> length xs" for xs
    by (rule length_dropWhile_le)
  assume a: "templateName str = Some (name, rest)"
  show ?thesis
  proof (cases "str \<noteq> [] \<and> hd str = CHR ''{''")
    case True
    then obtain tl' where s: "str = CHR ''{'' # tl'" by (cases str) auto
    with a obtain r where "dropWhile isWordChar tl' = r # rest"
      by (auto simp: templateName_def Let_def split: if_splits list.splits)
    with le[of tl'] s show ?thesis by simp
  next
    case False
    with a have "rest = dropWhile isWordChar str"
      by (auto simp: templateName_def Let_def split: if_splits)
    with le[of str] show ?thesis by simp
  qed
qed

text \<open>
  \<^verbatim>\<open>expand\<close> for a pattern without groups: only \<^verbatim>\<open>$0\<close> (the whole match) has a value;
  every other reference expands to nothing.
\<close>

function expandTemplate :: "string \<Rightarrow> string \<Rightarrow> string" where
  "expandTemplate match [] = []"
| "expandTemplate match (c # cs) =
     (if c \<noteq> CHR ''$'' then c # expandTemplate match cs
      else if cs \<noteq> [] \<and> hd cs = CHR ''$'' then CHR ''$'' # expandTemplate match (tl cs)
      else (case templateName cs of
              None \<Rightarrow> CHR ''$'' # expandTemplate match cs
            | Some (name, rest) \<Rightarrow>
                (if name = ''0'' then match else []) @ expandTemplate match rest))"
  by pat_completeness auto
termination
  by (relation "measure (\<lambda>(match, template). length template)")
     (auto dest: templateName_shorter simp: less_Suc_eq_le)

text \<open>
  \<^verbatim>\<open>regexp.MustCompile(`\b` + QuoteMeta(alias) + `\.`).ReplaceAllString(filter, repl)\<close>.
  \<^verbatim>\<open>\b\<close> holds between two bytes of which exactly one is a word character (the ends of the
  text count as non-word).  \<open>prevWord\<close> tells whether the byte before the current position
  is a word character; behind a match it is the dot, which is not.  \<open>repl\<close> is the expanded
  replacement.
\<close>

function aliasRe_ReplaceAllString :: "string \<Rightarrow> string \<Rightarrow> bool \<Rightarrow> string \<Rightarrow> string" where
  "aliasRe_ReplaceAllString alias repl prevWord [] = []"
| "aliasRe_ReplaceAllString alias repl prevWord (c # cs) =
     (if prevWord \<noteq> isWordChar c \<and> prefix (alias @ ''.'') (c # cs)
      then repl @ aliasRe_ReplaceAllString alias repl False (drop (length alias) cs)
      else c # aliasRe_ReplaceAllString alias repl (isWordChar c) cs)"
  by pat_completeness auto
termination
  by (relation "measure (\<lambda>(alias, repl, prevWord, s). length s)") auto

text \<open>
  The loop \<^verbatim>\<open>for alias, tableName := range v.AliasMap\<close>.  Go visits the entries of a map in
  an unspecified order; \<open>entries\<close> is the alias map in the order of one such visit.
\<close>

fun substituteAliases :: "(string \<times> string) list \<Rightarrow> string \<Rightarrow> string" where
  "substituteAliases [] flt = flt"
| "substituteAliases ((alias, tableName) # entries) flt =
     substituteAliases entries
       (aliasRe_ReplaceAllString alias
          (expandTemplate (alias @ ''.'') (tableName @ ''.'')) False flt)"

text \<open>
  The body of \<^verbatim>\<open>extractWhereFilter\<close> once \<^verbatim>\<open>Restore\<close> has succeeded with the text \<open>text\<close>:
  backticks are removed, the charset prefix is removed, aliases are replaced, \<^verbatim>\<open>" AND "\<close>
  becomes \<^verbatim>\<open>" and "\<close>.
\<close>

definition cleanWhere :: "(string \<times> string) list \<Rightarrow> string \<Rightarrow> string" where
  "cleanWhere entries text =
     (let flt = strings_ReplaceAll text [CHR 0x60] [];
          flt = reUTF8MB4_ReplaceAllString flt;
          flt = substituteAliases entries flt;
          flt = strings_ReplaceAll flt '' AND '' '' and ''
      in flt)"

section \<open>Extractor: the visitor \<^verbatim>\<open>ColX\<close>\<close>

text \<open>
  The syntax tree is built by the TiDB parser, which is not part of the program.  The model
  keeps of every node what the visitor reads.  Of an expression the visitor only calls
  \<^verbatim>\<open>Restore\<close>: the expression is its outcome, an error or the text written to the buffer.
\<close>

datatype restoreResult = RestoreError | RestoreOK string

datatype exprNode = ExprNode restoreResult

text \<open>\<^verbatim>\<open>ast.TableName\<close>, with its field \<^verbatim>\<open>Name.O\<close>.\<close>

datatype tableName = TableName string

text \<open>
  A join tree.  \<^verbatim>\<open>Join.Left\<close> and \<^verbatim>\<open>Join.Right\<close> are interface values: nil, a
  \<^verbatim>\<open>*ast.TableSource\<close> (with \<^verbatim>\<open>AsName.O\<close>, and a \<^verbatim>\<open>Source\<close> that is a \<^verbatim>\<open>*ast.TableName\<close>
  or something else, such as a subquery), a \<^verbatim>\<open>*ast.Join\<close>, or another kind of node.  A
  \<^verbatim>\<open>*ast.Join\<close> held by the interface is taken to point to a join, as the parser builds it.
\<close>

datatype resultSource = SourceTableName string | SourceOther

datatype resultSetNode =
    NilNode
  | TableSource resultSource string
  | JoinNode join
  | OtherResultSetNode
and join = Join resultSetNode resultSetNode

text \<open>\<^verbatim>\<open>ast.TableRefsClause\<close>, with its field \<^verbatim>\<open>TableRefs\<close>, a \<^verbatim>\<open>*ast.Join\<close> that may be nil.\<close>

datatype tableRefsClause = TableRefsClause "join option"

text \<open>
  The node types that \<^verbatim>\<open>Enter\<close> tells apart, each with the fields \<^verbatim>\<open>Enter\<close> reads (\<open>None\<close>
  is a nil pointer); every other node type is \<open>OtherNode\<close>.
\<close>

datatype nodeKind =
    ColumnName string
  | InsertStmt "tableRefsClause option"
  | UpdateStmt "tableRefsClause option" "exprNode option"
  | DeleteStmt "tableRefsClause option" "exprNode option"
  | SelectStmt "tableRefsClause option" "exprNode option"
  | AlterTableStmt "tableName option"
  | CreateTableStmt "tableName option"
  | DropTableStmt "tableName option list"
  | TruncateTableStmt "tableName option"
  | OtherNode

text \<open>
  A node with the nodes that its \<^verbatim>\<open>Accept\<close> method hands to the visitor, in that order.
\<close>

datatype node = Node nodeKind "node list"

record ColX =
  ColNames :: "string list"
  TableNames :: "string list"
  PrimaryTable :: string
  Action :: string
  WhereFilter :: string
  AliasMap :: "(string \<times> string) list"

text \<open>
  \<^verbatim>\<open>AliasMap\<close> is a Go map: a list of pairs with one entry for each key.  \<open>mapAssign\<close> is the
  assignment \<^verbatim>\<open>m[k] = v\<close>.
\<close>

fun mapAssign :: "(string \<times> string) list \<Rightarrow> string \<Rightarrow> string \<Rightarrow> (string \<times> string) list" where
  "mapAssign [] k v = [(k, v)]"
| "mapAssign ((k', v') # m) k v =
     (if k' = k then (k, v) # m else (k', v') # mapAssign m k v)"

text \<open>
  \<^verbatim>\<open>extractTableNames\<close>.  The source treats \<^verbatim>\<open>join.Left\<close> and \<^verbatim>\<open>join.Right\<close> with the same
  block of code, written twice; \<open>extractSide\<close> is that block.  \<open>extractJoin\<close> is the function
  on a join that is not nil.  The loop that searches \<^verbatim>\<open>v.TableNames\<close> for the name and sets
  \<^verbatim>\<open>found\<close> is the membership test.
\<close>

fun extractJoin :: "ColX \<Rightarrow> join \<Rightarrow> ColX"
  and extractSide :: "ColX \<Rightarrow> resultSetNode \<Rightarrow> ColX" where
  "extractJoin v (Join left right) = extractSide (extractSide v left) right"
| "extractSide v NilNode = v"
| "extractSide v (TableSource source aliasStr) =
     (case source of
        SourceTableName tableNameStr \<Rightarrow>
          (let v = (if aliasStr \<noteq> []
                    then v\<lparr>AliasMap := mapAssign (AliasMap v) aliasStr tableNameStr\<rparr>
                    else v);
               found = (tableNameStr \<in> set (TableNames v))
           in if \<not> found \<and> tableNameStr \<noteq> []
              then v\<lparr>TableNames := TableNames v @ [tableNameStr]\<rparr>
              else v)
      | SourceOther \<Rightarrow> v)"
| "extractSide v (JoinNode j) = extractJoin v j"
| "extractSide v OtherResultSetNode = v"

definition extractTableNames :: "ColX \<Rightarrow> join option \<Rightarrow> ColX" where
  "extractTableNames v j = (case j of None \<Rightarrow> v | Some j' \<Rightarrow> extractJoin v j')"

text \<open>
  \<^verbatim>\<open>extractWhereFilter\<close> and its copy \<^verbatim>\<open>extractWhereFilterFromExpr\<close>.  \<open>order\<close> is the order
  in which \<^verbatim>\<open>range\<close> visits the alias map, which Go leaves open.
\<close>

definition extractWhereFilter ::
    "((string \<times> string) list \<Rightarrow> (string \<times> string) list) \<Rightarrow> ColX \<Rightarrow> exprNode option \<Rightarrow> ColX" where
  "extractWhereFilter order v whereExpr =
     (case whereExpr of
        None \<Rightarrow> v
      | Some (ExprNode err) \<Rightarrow>
          (case err of
             RestoreError \<Rightarrow> v
           | RestoreOK text \<Rightarrow> v\<lparr>WhereFilter := cleanWhere (order (AliasMap v)) text\<rparr>))"

definition extractWhereFilterFromExpr ::
    "((string \<times> string) list \<Rightarrow> (string \<times> string) list) \<Rightarrow> ColX \<Rightarrow> exprNode option \<Rightarrow> ColX" where
  "extractWhereFilterFromExpr order v whereExpr =
     (case whereExpr of
        None \<Rightarrow> v
      | Some (ExprNode err) \<Rightarrow>
          (case err of
             RestoreError \<Rightarrow> v
           | RestoreOK text \<Rightarrow> v\<lparr>WhereFilter := cleanWhere (order (AliasMap v)) text\<rparr>))"

text \<open>The three DDL cases that read one table name, and the loop of the DROP case.\<close>

definition appendTable :: "ColX \<Rightarrow> tableName option \<Rightarrow> ColX" where
  "appendTable v table =
     (case table of
        None \<Rightarrow> v
      | Some (TableName tableName) \<Rightarrow>
          if tableName \<noteq> [] then v\<lparr>TableNames := TableNames v @ [tableName]\<rparr> else v)"

fun appendTables :: "ColX \<Rightarrow> tableName option list \<Rightarrow> ColX" where
  "appendTables v [] = v"
| "appendTables v (table # tables) = appendTables (appendTable v table) tables"

fun Enter :: "((string \<times> string) list \<Rightarrow> (string \<times> string) list) \<Rightarrow> ColX \<Rightarrow> nodeKind \<Rightarrow> ColX" where
  "Enter order v (ColumnName name) = v\<lparr>ColNames := ColNames v @ [name]\<rparr>"
| "Enter order v (InsertStmt table) =
     (let v = v\<lparr>Action := ''INSERT''\<rparr> in
      case table of
        Some (TableRefsClause (Some j)) \<Rightarrow> extractTableNames v (Some j)
      | _ \<Rightarrow> v)"
| "Enter order v (UpdateStmt tableRefs whereExpr) =
     (let v = v\<lparr>Action := ''UPDATE''\<rparr>;
          v = (case tableRefs of
                 None \<Rightarrow> v
               | Some (TableRefsClause j) \<Rightarrow>
                   (let v = extractTableNames v j in
                    if length (TableNames v) > 0
                    then v\<lparr>PrimaryTable := hd (TableNames v)\<rparr> else v))
      in if whereExpr \<noteq> None then extractWhereFilterFromExpr order v whereExpr else v)"
| "Enter order v (DeleteStmt tableRefs whereExpr) =
     (let v = v\<lparr>Action := ''DELETE''\<rparr>;
          v = (case tableRefs of
                 None \<Rightarrow> v
               | Some (TableRefsClause j) \<Rightarrow>
                   (let v = extractTableNames v j in
                    if length (TableNames v) > 0
                    then v\<lparr>PrimaryTable := hd (TableNames v)\<rparr> else v))
      in extractWhereFilter order v whereExpr)"
| "Enter order v (SelectStmt from whereExpr) =
     (let v = v\<lparr>Action := ''SELECT''\<rparr>;
          v = (case from of
                 Some (TableRefsClause (Some j)) \<Rightarrow> extractTableNames v (Some j)
               | _ \<Rightarrow> v)
      in extractWhereFilter order v whereExpr)"
| "Enter order v (AlterTableStmt table) = appendTable (v\<lparr>Action := ''ALTER''\<rparr>) table"
| "Enter order v (CreateTableStmt table) = appendTable (v\<lparr>Action := ''CREATE''\<rparr>) table"
| "Enter order v (DropTableStmt tables) = appendTables (v\<lparr>Action := ''DROP''\<rparr>) tables"
| "Enter order v (TruncateTableStmt table) = appendTable (v\<lparr>Action := ''TRUNCATE''\<rparr>) table"
| "Enter order v OtherNode = v"

text \<open>
  \<^verbatim>\<open>Accept\<close>: every node hands itself to \<^verbatim>\<open>Enter\<close> and then, since \<^verbatim>\<open>Enter\<close> always answers
  \<^verbatim>\<open>false\<close> for ``skip the children'' and \<^verbatim>\<open>Leave\<close> always answers \<^verbatim>\<open>true\<close>, its children one
  after the other.
\<close>

fun Accept :: "((string \<times> string) list \<Rightarrow> (string \<times> string) list) \<Rightarrow> ColX \<Rightarrow> node \<Rightarrow> ColX" where
  "Accept order v (Node kind children) = foldl (Accept order) (Enter order v kind) children"

definition newColX :: ColX where
  "newColX = \<lparr>ColNames = [], TableNames = [], PrimaryTable = [], Action = [],
              WhereFilter = [], AliasMap = []\<rparr>"

definition Extract ::
    "((string \<times> string) list \<Rightarrow> (string \<times> string) list) \<Rightarrow> node
      \<Rightarrow> string list \<times> string list \<times> string \<times> string \<times> string" where
  "Extract order rootNode =
     (let v = Accept order newColX rootNode
      in (ColNames v, TableNames v, Action v, WhereFilter v, PrimaryTable v))"

section \<open>DumpPlanGenerator: the loop body of \<^verbatim>\<open>runDump\<close>\<close>

text \<open>
  What \<^verbatim>\<open>runDump\<close> prints for one statement is a list of lines.  A Go program that indexes
  or slices a string out of range panics: \<open>Panic out\<close> is a run that stopped with a runtime
  panic after printing \<open>out\<close> (the last element is the line it was printing), \<open>Done out\<close> a
  run that printed \<open>out\<close> and went on.
\<close>

datatype 'a run = Done 'a | Panic 'a

text \<open>
  \<^verbatim>\<open>string(b)\<close> for a byte \<open>b\<close> is the UTF-8 encoding of the code point of that number.
\<close>

definition byteString :: "char \<Rightarrow> string" where
  "byteString b =
     (let n = (of_char b :: nat)
      in if n < 128 then [b] else [char_of (192 + n div 64), char_of (128 + n mod 64)])"

text \<open>
  \<^verbatim>\<open>strings.ToLower\<close> maps the letters of all of Unicode; it is a parameter \<open>toLower\<close> of the
  model.  \<open>asciiToLower\<close> is what it does on ASCII text.
\<close>

definition asciiToLower :: "string \<Rightarrow> string" where
  "asciiToLower s =
     map (\<lambda>c. let n = (of_char c :: nat) in if 65 \<le> n \<and> n \<le> 90 then char_of (n + 32) else c) s"

text \<open>
  The alias of a joined table in the helper query: the first byte of the lower-cased table
  name, or its first two bytes when the first byte is that of the dumped table as well.
  \<open>None\<close> is the panic of \<^verbatim>\<open>s[0]\<close> on an empty string or of \<^verbatim>\<open>s[0:2]\<close> on a string shorter
  than two bytes.
\<close>

definition joinAlias :: "(string \<Rightarrow> string) \<Rightarrow> string \<Rightarrow> string \<Rightarrow> string option" where
  "joinAlias toLower tbl tableName =
     (case toLower tbl of
        [] \<Rightarrow> None
      | b # _ \<Rightarrow>
          (case toLower tableName of
             [] \<Rightarrow> None
           | b' # _ \<Rightarrow>
               if byteString b = byteString b'
               then (if length (toLower tbl) < 2 then None else Some (take 2 (toLower tbl)))
               else Some (byteString b)))"

text \<open>The loop that prints the JOIN clauses; \<open>out\<close> is the line printed so far.\<close>

fun joinClauses :: "(string \<Rightarrow> string) \<Rightarrow> string \<Rightarrow> string list \<Rightarrow> string \<Rightarrow> string run" where
  "joinClauses toLower tableName [] out = Done out"
| "joinClauses toLower tableName (tbl # tbls) out =
     (if tbl \<noteq> tableName then
        (case joinAlias toLower tbl tableName of
           None \<Rightarrow> Panic out
         | Some alias \<Rightarrow>
             joinClauses toLower tableName tbls
               (out @ ''JOIN '' @ tbl @ '' '' @ alias @ '' ON <join_condition> ''))
      else joinClauses toLower tableName tbls out)"

definition helperBlock ::
    "(string \<Rightarrow> string) \<Rightarrow> string \<Rightarrow> string \<Rightarrow> string \<Rightarrow> string \<Rightarrow> string list \<Rightarrow> string list run" where
  "helperBlock toLower connOpts database whereFilter tableName tableNames =
     (let line1 = ''# To get exact rows matching all JOIN conditions:'';
          line2 = ''# Step 1: Get matching IDs'';
          start = ''# mysql -N -e '' @ [CHR 0x22] @ ''SELECT e.id FROM '' @ tableName @ '' e ''
      in case joinClauses toLower tableName tableNames start of
           Panic out \<Rightarrow> Panic [line1, line2, out]
         | Done out \<Rightarrow>
             Done [line1, line2,
                   out @ ''WHERE '' @ whereFilter @ [CHR 0x22] @ '' '' @ database @
                     '' > /tmp/'' @ tableName @ ''_ids.txt'',
                   ''# Step 2: Dump exact rows'',
                   ''# mysqldump'' @ connOpts @ '' --where='' @ [CHR 0x22] @
                     ''id IN ($(cat /tmp/'' @ tableName @ ''_ids.txt | tr ''
                     @ [CHR 0x27, CHR 0x5C, CHR ''n'', CHR 0x27] @ '' ''
                     @ [CHR 0x27, CHR '','', CHR 0x27] @ '' | sed ''
                     @ [CHR 0x27] @ ''s/,$//'' @ [CHR 0x27] @ '' ))'' @ [CHR 0x22] @
                     '' '' @ database @ '' '' @ tableName,
                   ''#'',
                   ''# Or use partial filter (may include extra rows):''])"

text \<open>The loop that strips the prefix of every table from the whole WHERE filter.\<close>

fun allConditions :: "string \<Rightarrow> string list \<Rightarrow> string" where
  "allConditions allConditionsFilter [] = allConditionsFilter"
| "allConditions allConditionsFilter (tbl # tbls) =
     allConditions (strings_ReplaceAll allConditionsFilter (tbl @ ''.'') []) tbls"

text \<open>The body of the loop over \<^verbatim>\<open>tablesToDump\<close>, for one table.\<close>

definition dumpTable ::
    "(string \<Rightarrow> string) \<Rightarrow> string \<Rightarrow> string \<Rightarrow> string list \<Rightarrow> string \<Rightarrow> string \<Rightarrow> string
      \<Rightarrow> string \<Rightarrow> string list run" where
  "dumpTable toLower connOpts database tableNames action whereFilter primaryTable tableName =
     (let tableSpecificFilter = FilterWhereForTable whereFilter tableName tableNames;
          helper =
            (if (action = ''UPDATE'' \<or> action = ''DELETE'') \<and> tableName = primaryTable
                \<and> length tableNames > 1
             then (let allConditionsFilter = allConditions whereFilter tableNames
                   in if allConditionsFilter \<noteq> tableSpecificFilter \<and> tableSpecificFilter \<noteq> []
                      then helperBlock toLower connOpts database whereFilter tableName tableNames
                      else Done [])
             else Done [])
      in case helper of
           Panic out \<Rightarrow> Panic out
         | Done out \<Rightarrow>
             Done (out @
               [if tableSpecificFilter \<noteq> []
                then ''mysqldump'' @ connOpts @ '' --where='' @ [CHR 0x22] @ tableSpecificFilter
                       @ [CHR 0x22] @ '' '' @ database @ '' '' @ tableName
                else ''mysqldump'' @ connOpts @ '' '' @ database @ '' '' @ tableName]))"

fun dumpTables ::
    "(string \<Rightarrow> string) \<Rightarrow> string \<Rightarrow> string \<Rightarrow> string list \<Rightarrow> string \<Rightarrow> string \<Rightarrow> string
      \<Rightarrow> string list \<Rightarrow> string list \<Rightarrow> string list run" where
  "dumpTables toLower connOpts database tableNames action whereFilter primaryTable [] out =
     Done out"
| "dumpTables toLower connOpts database tableNames action whereFilter primaryTable
     (tableName # tablesToDump) out =
     (case dumpTable toLower connOpts database tableNames action whereFilter primaryTable
             tableName of
        Panic lines \<Rightarrow> Panic (out @ lines)
      | Done lines \<Rightarrow>
          dumpTables toLower connOpts database tableNames action whereFilter primaryTable
            tablesToDump (out @ lines))"

text \<open>
  One round of the loop over the statements: \<^verbatim>\<open>Extract\<close>, then the lines for the statement.
\<close>

definition dumpStatement ::
    "(string \<Rightarrow> string) \<Rightarrow> string \<Rightarrow> string \<Rightarrow> string list \<Rightarrow> string \<Rightarrow> string \<Rightarrow> string
      \<Rightarrow> string list run" where
  "dumpStatement toLower connOpts database tableNames action whereFilter primaryTable =
     (if length tableNames = 0 then Done [''# No tables found in SQL statement'']
      else
        (let tablesToDump =
               (if (action = ''UPDATE'' \<or> action = ''DELETE'') \<and> primaryTable \<noteq> []
                then [primaryTable] else tableNames)
         in dumpTables toLower connOpts database tableNames action whereFilter primaryTable
              tablesToDump []))"

definition runDumpStatement ::
    "(string \<Rightarrow> string) \<Rightarrow> ((string \<times> string) list \<Rightarrow> (string \<times> string) list)
      \<Rightarrow> string \<Rightarrow> string \<Rightarrow> node \<Rightarrow> string list run" where
  "runDumpStatement toLower order connOpts database stmtNode =
     (case Extract order stmtNode of
        (colNames, tableNames, action, whereFilter, primaryTable) \<Rightarrow>
          dumpStatement toLower connOpts database tableNames action whereFilter primaryTable)"

section \<open>The PerTableFilterSplitter as the specification words it\<close>

text \<open>
  The specification's rule for one condition: a condition that contains \<open>target.\<close> is kept
  with that qualifier removed; otherwise a condition that contains the qualifier of a table
  of the statement is dropped (\<open>None\<close>); otherwise the condition is kept as it is.
  ``Contains'' is the contiguous-substring relation \<^const>\<open>sublist\<close>.
\<close>

definition specCondition :: "string \<Rightarrow> string list \<Rightarrow> string \<Rightarrow> string option" where
  "specCondition target tables c =
     (if sublist (target @ ''.'') c then Some (strings_ReplaceAll c (target @ ''.'') [])
      else if (\<exists>tbl\<in>set tables. sublist (tbl @ ''.'') c) then None
      else Some c)"

text \<open>
  The specification's algorithm for a non-empty filter and more than one table: split on
  \<^verbatim>\<open>" and "\<close>, apply the rule to every condition, rejoin what is kept in the original order.
\<close>

definition PerTableFilter_spec :: "string \<Rightarrow> string \<Rightarrow> string list \<Rightarrow> string" where
  "PerTableFilter_spec whereFilter target tables =
     strings_Join (List.map_filter (specCondition target tables)
       (strings_Split whereFilter '' and '')) '' and ''"

text \<open>The same algorithm, with every condition trimmed of surrounding white space first.\<close>

definition PerTableFilter_trimmed_spec :: "string \<Rightarrow> string \<Rightarrow> string list \<Rightarrow> string" where
  "PerTableFilter_trimmed_spec whereFilter target tables =
     strings_Join (List.map_filter (specCondition target tables)
       (map strings_TrimSpace (strings_Split whereFilter '' and ''))) '' and ''"

text \<open>
  The classification by substring: the condition is cut at its occurrences of \<open>target.\<close>
  (the pieces of \<^const>\<open>strings_Split\<close>) and the pieces are glued together again.
\<close>

definition substringClassify :: "string \<Rightarrow> string list \<Rightarrow> string \<Rightarrow> string option" where
  "substringClassify target tables c =
     (if (\<exists>u v. c = u @ target @ ''.'' @ v)
        then Some (concat (strings_Split c (target @ ''.'')))
      else if (\<exists>tbl\<in>set tables. \<exists>u v. c = u @ tbl @ ''.'' @ v) then None
      else Some c)"

text \<open>
  \<open>atWordStarts p prevWord s\<close>: every occurrence of \<open>p\<close> in \<open>s\<close> begins where no word
  character stands before it; \<open>prevWord\<close> says whether a word character stands before \<open>s\<close>.
\<close>

fun atWordStarts :: "string \<Rightarrow> bool \<Rightarrow> string \<Rightarrow> bool" where
  "atWordStarts p prevWord [] = True"
| "atWordStarts p prevWord (c # cs) =
     ((prefix p (c # cs) \<longrightarrow> \<not> prevWord) \<and> atWordStarts p (isWordChar c) cs)"

section \<open>Notions for the claims about the WhereRenderer\<close>

text \<open>
  \<open>aliasMatches alias prevWord s\<close>: the pattern \<^verbatim>\<open>\balias\.\<close> has a match in \<open>s\<close>, that is,
  an alias prefix remains in \<open>s\<close>.
\<close>

fun aliasMatches :: "string \<Rightarrow> bool \<Rightarrow> string \<Rightarrow> bool" where
  "aliasMatches alias prevWord [] = False"
| "aliasMatches alias prevWord (c # cs) =
     ((prevWord \<noteq> isWordChar c \<and> prefix (alias @ ''.'') (c # cs))
      \<or> aliasMatches alias (isWordChar c) cs)"


section \<open>Notions for the claims about the Extractor\<close>

text \<open>
  Predicates on the tree, for stating what a statement looks like.  \<open>anyKind P n\<close>: some node
  of the tree \<open>n\<close> has a kind that satisfies \<open>P\<close>.  \<open>rendersWhere\<close>: a statement node whose
  WHERE expression serializes.  \<open>whereFails\<close>: a statement node whose WHERE expression fails
  to serialize; \<open>withoutWhere\<close> is the same statement with no WHERE expression.
  \<open>isSelectStmt\<close> and \<open>isOtherStmt\<close> tell a SELECT node from the other statement nodes.
\<close>

fun anyKind :: "(nodeKind \<Rightarrow> bool) \<Rightarrow> node \<Rightarrow> bool" where
  "anyKind P (Node kind children) = (P kind \<or> list_ex (anyKind P) children)"

fun rendersWhere :: "nodeKind \<Rightarrow> bool" where
  "rendersWhere (UpdateStmt t (Some (ExprNode (RestoreOK text)))) = True"
| "rendersWhere (DeleteStmt t (Some (ExprNode (RestoreOK text)))) = True"
| "rendersWhere (SelectStmt t (Some (ExprNode (RestoreOK text)))) = True"
| "rendersWhere kind = False"

fun whereFails :: "nodeKind \<Rightarrow> bool" where
  "whereFails (UpdateStmt t (Some (ExprNode RestoreError))) = True"
| "whereFails (DeleteStmt t (Some (ExprNode RestoreError))) = True"
| "whereFails (SelectStmt t (Some (ExprNode RestoreError))) = True"
| "whereFails kind = False"

fun withoutWhere :: "nodeKind \<Rightarrow> nodeKind" where
  "withoutWhere (UpdateStmt t w) = UpdateStmt t None"
| "withoutWhere (DeleteStmt t w) = DeleteStmt t None"
| "withoutWhere (SelectStmt t w) = SelectStmt t None"
| "withoutWhere kind = kind"

fun isSelectStmt :: "nodeKind \<Rightarrow> bool" where
  "isSelectStmt (SelectStmt t w) = True"
| "isSelectStmt kind = False"

fun isOtherStmt :: "nodeKind \<Rightarrow> bool" where
  "isOtherStmt (ColumnName name) = False"
| "isOtherStmt (SelectStmt t w) = False"
| "isOtherStmt OtherNode = False"
| "isOtherStmt kind = True"

text \<open>The statements that name their tables directly, without a join tree.\<close>

fun isDDL :: "nodeKind \<Rightarrow> bool" where
  "isDDL (AlterTableStmt t) = True"
| "isDDL (CreateTableStmt t) = True"
| "isDDL (DropTableStmt ts) = True"
| "isDDL (TruncateTableStmt t) = True"
| "isDDL kind = False"

text \<open>The table names of the table sources of a join tree, from left to right.\<close>

fun joinTables :: "join \<Rightarrow> string list"
  and sideTables :: "resultSetNode \<Rightarrow> string list" where
  "joinTables (Join left right) = sideTables left @ sideTables right"
| "sideTables NilNode = []"
| "sideTables (TableSource source aliasStr) =
     (case source of SourceTableName name \<Rightarrow> if name \<noteq> [] then [name] else []
      | SourceOther \<Rightarrow> [])"
| "sideTables (JoinNode j) = joinTables j"
| "sideTables OtherResultSetNode = []"

section \<open>The export plan as the specification words it\<close>

text \<open>
  The specification's words for the export plan: the tables to export, and the one export
  directive of a table, with a \<^verbatim>\<open>--where\<close> clause exactly when the per-table filter is not
  empty.
\<close>

definition tablesToExport :: "string list \<Rightarrow> string \<Rightarrow> string \<Rightarrow> string list" where
  "tablesToExport tables action primaryTable =
     (if (action = ''UPDATE'' \<or> action = ''DELETE'') \<and> primaryTable \<noteq> []
      then [primaryTable] else tables)"

definition exportDirective :: "string \<Rightarrow> string \<Rightarrow> string \<Rightarrow> string list \<Rightarrow> string \<Rightarrow> string" where
  "exportDirective connOpts database whereFilter tables table =
     ''mysqldump'' @ connOpts @
     (if FilterWhereForTable whereFilter table tables = [] then []
      else '' --where='' @ [CHR 0x22] @ FilterWhereForTable whereFilter table tables @ [CHR 0x22])
     @ '' '' @ database @ '' '' @ table"

section \<open>Facts about the string functions\<close>

lemma strings_Index_None_iff: "strings_Index s sub = None \<longleftrightarrow> \<not> sublist sub s"
  by (induction s) (auto simp: sublist_Cons_right)

lemma strings_Contains_iff: "strings_Contains s sub \<longleftrightarrow> sublist sub s"
  by (simp add: strings_Contains_def strings_Index_None_iff)

lemma hasTablePrefix_iff:
  "hasTablePrefix c ts \<longleftrightarrow> (\<exists>tbl\<in>set ts. sublist (tbl @ ''.'') c)"
  by (induction ts) (auto simp: strings_Contains_iff)

lemma strings_Index_Some_split:
  "strings_Index s sub = Some m \<Longrightarrow> s = take m s @ sub @ drop (m + length sub) s"
proof (induction s arbitrary: m)
  case Nil
  then show ?case by (simp split: if_splits)
next
  case (Cons c cs)
  show ?case
  proof (cases "prefix sub (c # cs)")
    case True
    then obtain zs where "c # cs = sub @ zs" by (auto simp: prefix_def)
    moreover from True Cons.prems have "m = 0" by simp
    ultimately show ?thesis by simp
  next
    case False
    with Cons.prems obtain k where k: "strings_Index cs sub = Some k" "m = Suc k"
      by auto
    from Cons.IH[OF k(1)] k(2) show ?thesis by simp
  qed
qed

lemma strings_Index_Some_first:
  "strings_Index s sub = Some m \<Longrightarrow> sub \<noteq> [] \<Longrightarrow> \<not> sublist sub (take m s)"
proof (induction s arbitrary: m)
  case Nil
  then show ?case by (simp split: if_splits)
next
  case (Cons c cs)
  show ?case
  proof (cases "prefix sub (c # cs)")
    case True
    with Cons.prems show ?thesis by simp
  next
    case False
    with Cons.prems obtain k where k: "strings_Index cs sub = Some k" "m = Suc k"
      by auto
    have "\<not> prefix sub (c # take k cs)"
      using False by (metis append_take_drop_id append_Cons prefix_order.dual_order.trans prefixI)
    with Cons.IH[OF k(1) Cons.prems(2)] k(2) show ?thesis
      by (simp add: sublist_Cons_right)
  qed
qed

lemma strings_Split_None: "sep \<noteq> [] \<Longrightarrow> strings_Index s sep = None \<Longrightarrow> strings_Split s sep = [s]"
  by (simp add: strings_Split.simps)

lemma strings_Split_Some: "sep \<noteq> [] \<Longrightarrow> strings_Index s sep = Some m \<Longrightarrow>
   strings_Split s sep = take m s # strings_Split (drop (m + length sep) s) sep"
  by (simp add: strings_Split.simps)

lemma strings_ReplaceAll_None: "old \<noteq> [] \<Longrightarrow> strings_Index s old = None \<Longrightarrow> strings_ReplaceAll s old new = s"
  by (simp add: strings_ReplaceAll.simps)

lemma strings_ReplaceAll_Some: "old \<noteq> [] \<Longrightarrow> strings_Index s old = Some m \<Longrightarrow>
   strings_ReplaceAll s old new = take m s @ new @ strings_ReplaceAll (drop (m + length old) s) old new"
  by (simp add: strings_ReplaceAll.simps)

lemma strings_Split_nonempty: "sep \<noteq> [] \<Longrightarrow> strings_Split s sep \<noteq> []"
  by (cases "strings_Index s sep") (simp_all add: strings_Split_None strings_Split_Some)

lemma strings_Join_Cons: "ys \<noteq> [] \<Longrightarrow> strings_Join (x # ys) sep = x @ sep @ strings_Join ys sep"
  by (cases ys) simp_all

lemma strings_Split_pieces:
  "sep \<noteq> [] \<Longrightarrow> x \<in> set (strings_Split s sep) \<Longrightarrow> \<not> sublist sep x"
proof (induction s sep arbitrary: x rule: strings_Split.induct)
  case (1 s sep)
  show ?case
  proof (cases "strings_Index s sep")
    case None
    with 1 show ?thesis by (simp add: strings_Split_None strings_Index_None_iff)
  next
    case (Some m)
    with "1.prems" have "x = take m s \<or> x \<in> set (strings_Split (drop (m + length sep) s) sep)"
      by (simp add: strings_Split_Some)
    then show ?thesis
      using "1.IH"[OF "1.prems"(1) Some "1.prems"(1)] strings_Index_Some_first[OF Some "1.prems"(1)]
      by auto
  qed
qed

lemma strings_Join_Split:
  "sep \<noteq> [] \<Longrightarrow> strings_Join (strings_Split s sep) sep = s"
proof (induction s sep rule: strings_Split.induct)
  case (1 s sep)
  show ?case
  proof (cases "strings_Index s sep")
    case None
    with 1 show ?thesis by (simp add: strings_Split_None)
  next
    case (Some m)
    with 1 strings_Index_Some_split[OF Some] show ?thesis
      by (simp add: strings_Split_Some strings_Join_Cons strings_Split_nonempty)
  qed
qed

lemma strings_ReplaceAll_Join_Split:
  "old \<noteq> [] \<Longrightarrow> strings_ReplaceAll s old new = strings_Join (strings_Split s old) new"
proof (induction s old arbitrary: new rule: strings_Split.induct)
  case (1 s sep)
  show ?case
  proof (cases "strings_Index s sep")
    case None
    with 1 show ?thesis by (simp add: strings_Split_None strings_ReplaceAll_None)
  next
    case (Some m)
    with 1 show ?thesis
      by (simp add: strings_Split_Some strings_ReplaceAll_Some strings_Join_Cons strings_Split_nonempty)
  qed
qed

lemma strings_Join_Nil_sep: "strings_Join xs [] = concat xs"
  by (induction xs "[] :: string" rule: strings_Join.induct) simp_all


lemma filterLoop_eq:
  "filterLoop t ts cs acc = acc @ List.map_filter (specCondition t ts) (map strings_TrimSpace cs)"
  by (induction cs arbitrary: acc)
     (simp_all add: Let_def map_filter_simps specCondition_def strings_Contains_iff hasTablePrefix_iff)

lemma FilterWhereForTable_multi:
  "whereFilter \<noteq> [] \<Longrightarrow> 1 < length allTables \<Longrightarrow>
   FilterWhereForTable whereFilter tableName allTables =
     strings_Join (filterLoop tableName allTables (strings_Split whereFilter '' and '') []) '' and ''"
  by (auto simp: FilterWhereForTable_def Let_def)


lemma strings_ReplaceAll_concat_Split:
  "old \<noteq> [] \<Longrightarrow> strings_ReplaceAll s old [] = concat (strings_Split s old)"
  by (simp add: strings_ReplaceAll_Join_Split strings_Join_Nil_sep)

lemma specCondition_substringClassify:
  "specCondition target tables c = substringClassify target tables c"
  by (simp add: specCondition_def substringClassify_def sublist_def strings_ReplaceAll_concat_Split)

lemma atWordStarts_append:
  "atWordStarts p pw (x @ y) \<Longrightarrow> atWordStarts p (if x = [] then pw else isWordChar (last x)) y"
  by (induction x arbitrary: pw) auto

lemma atWordStarts_occurrence:
  assumes "atWordStarts p pw (x @ y)" "prefix p y" "p \<noteq> []"
  shows "if x = [] then \<not> pw else \<not> isWordChar (last x)"
proof -
  from assms(2,3) obtain c cs where y: "y = c # cs" by (cases y) auto
  from atWordStarts_append[OF assms(1)] y assms(2) show ?thesis by (auto split: if_splits)
qed

lemma not_isWordChar_dot [simp]: "\<not> isWordChar CHR ''.''"
  by (simp add: isWordChar_def)

lemma not_isWordChar_space [simp]: "\<not> isWordChar CHR '' ''"
  by (simp add: isWordChar_def)

lemma suffix_last:
  "suffix a u \<Longrightarrow> a \<noteq> [] \<Longrightarrow> u \<noteq> [] \<and> last u = last a"
  by (auto simp: suffix_def)

lemma set_map_filter_iff:
  "r \<in> set (List.map_filter f xs) \<longleftrightarrow> (\<exists>x\<in>set xs. f x = Some r)"
  by (induction xs) (auto split: option.splits)

lemma ReplaceAll_clean:
  assumes w: "\<forall>ch\<in>set t. isWordChar ch"
  shows "atWordStarts (t @ ''.'') pw c \<Longrightarrow>
         \<not> sublist (t @ ''.'') (strings_ReplaceAll c (t @ ''.'') [])"
proof (induction "length c" arbitrary: c pw rule: less_induct)
  case less
  let ?p = "t @ ''.''"
  show ?case
  proof (cases "strings_Index c ?p")
    case None
    then show ?thesis by (simp add: strings_ReplaceAll_None strings_Index_None_iff)
  next
    case (Some m)
    let ?u = "take m c" and ?v = "drop (m + length ?p) c"
    have c: "c = ?u @ ?p @ ?v" using strings_Index_Some_split[OF Some] .
    have bound: "m + length ?p \<le> length c" using strings_Index_bound[OF Some] .
    have nou: "\<not> sublist ?p ?u" using strings_Index_Some_first[OF Some] by simp
    have "atWordStarts ?p pw ((?u @ ?p) @ ?v)" using less.prems c by (metis append_assoc)
    from atWordStarts_append[OF this] have "atWordStarts ?p False ?v" by simp
    moreover have "length ?v < length c" using bound by simp
    ultimately have norec: "\<not> sublist ?p (strings_ReplaceAll ?v ?p [])"
      using less.hyps by blast
    have "atWordStarts ?p pw (?u @ (?p @ ?v))" using less.prems c by simp
    from atWordStarts_occurrence[OF this] have ulast: "?u \<noteq> [] \<Longrightarrow> \<not> isWordChar (last ?u)"
      by (auto split: if_splits)
    have res: "strings_ReplaceAll c ?p [] = ?u @ strings_ReplaceAll ?v ?p []"
      using Some by (simp add: strings_ReplaceAll_Some)
    show ?thesis
    proof
      assume "sublist ?p (strings_ReplaceAll c ?p [])"
      then have "sublist ?p (?u @ strings_ReplaceAll ?v ?p [])" by (simp only: res)
      with nou norec obtain xs1 xs2 where x: "?p = xs1 @ xs2" "suffix xs1 ?u"
          "prefix xs2 (strings_ReplaceAll ?v ?p [])"
        unfolding sublist_append by blast
      have "xs1 \<noteq> []" using x norec by auto
      have "xs2 \<noteq> []" using x nou by auto
      from x(1) \<open>xs2 \<noteq> []\<close> have "prefix xs1 t"
        by (metis append_butlast_last_id append_assoc butlast_append butlast_snoc prefixI)
      with \<open>xs1 \<noteq> []\<close> w have "isWordChar (last xs1)"
        by (meson last_in_set set_mono_prefix subsetD)
      moreover from suffix_last[OF x(2) \<open>xs1 \<noteq> []\<close>]
      have "?u \<noteq> [] \<and> last ?u = last xs1" .
      ultimately show False using ulast by metis
    qed
  qed
qed

lemma Join_and_clean:
  assumes "CHR '' '' \<notin> set p" "\<not> sublist p '' and ''"
  shows "\<forall>r\<in>set rs. \<not> sublist p r \<Longrightarrow> \<not> sublist p (strings_Join rs '' and '')"
proof (induction rs "'' and ''" rule: strings_Join.induct)
  case 1
  with assms show ?case by auto
next
  case (2 x)
  then show ?case by simp
next
  case (3 x y zs)
  let ?rest = "strings_Join (y # zs) '' and ''"
  from 3 have rest: "\<not> sublist p ?rest" and x: "\<not> sublist p x" by auto
  have sep: "\<not> sublist p ('' and '' @ ?rest)"
  proof
    assume "sublist p ('' and '' @ ?rest)"
    with rest assms(2) obtain a b where ab: "p = a @ b" "suffix a '' and ''" "prefix b ?rest"
      unfolding sublist_append by blast
    show False
    proof (cases "a = []")
      case True
      with ab rest show False by auto
    next
      case False
      with ab(2) have "last a = CHR '' ''" by (auto simp: suffix_def) (metis last.simps last_appendR list.distinct(1))
      with False ab(1) assms(1) show False
        by (metis Un_iff last_in_set set_append)
    qed
  qed
  show ?case
  proof
    assume "sublist p (strings_Join (x # y # zs) '' and '')"
    then have "sublist p (x @ ('' and '' @ ?rest))" by simp
    with x sep obtain a b where ab: "p = a @ b" "suffix a x" "prefix b ('' and '' @ ?rest)"
      unfolding sublist_append by blast
    show False
    proof (cases "b = []")
      case True
      with ab x show False by auto
    next
      case False
      with ab(3) have "hd b = CHR '' ''" by (cases b) (auto simp: prefix_def)
      with False ab(1) assms(1) show False
        by (metis Un_iff hd_in_set set_append)
    qed
  qed
qed

section \<open>Facts about the WhereRenderer\<close>

lemma expandTemplate_no_dollar:
  "CHR ''$'' \<notin> set template \<Longrightarrow> expandTemplate match template = template"
  by (induction template) auto

lemma not_isWordChar_dollar [simp]: "\<not> isWordChar CHR ''$''"
  by (simp add: isWordChar_def)

lemma expandTemplate_word:
  assumes "\<forall>ch\<in>set t. isWordChar ch"
  shows "expandTemplate match (t @ ''.'') = t @ ''.''"
proof -
  have "CHR ''$'' \<notin> set (t @ ''.'')" using assms by auto
  then show ?thesis by (rule expandTemplate_no_dollar)
qed

lemma aliasRe_no_match:
  "\<not> aliasMatches a pw s \<Longrightarrow> aliasRe_ReplaceAllString a r pw s = s"
  by (induction s arbitrary: pw) auto

lemma aliasRe_inside_word:
  "isWordChar c \<Longrightarrow>
   aliasRe_ReplaceAllString a r True (c # cs) = c # aliasRe_ReplaceAllString a r True cs"
  by simp

lemma word_prefix_head:
  assumes "a \<noteq> []" "\<forall>ch\<in>set a. isWordChar ch" "prefix (a @ ''.'') (c # cs)"
  shows "isWordChar c"
proof -
  from assms(1) obtain x xs where a: "a = x # xs" by (cases a) auto
  with assms(3) have "c = x" by simp
  with a assms(2) show ?thesis by simp
qed

lemma aliasRe_non_word:
  assumes "a \<noteq> []" "\<forall>ch\<in>set a. isWordChar ch" "\<not> isWordChar c"
  shows "aliasRe_ReplaceAllString a r pw (c # cs) = c # aliasRe_ReplaceAllString a r False cs"
  using assms word_prefix_head[OF assms(1,2)] by auto

lemma aliasMatches_non_word:
  assumes "b \<noteq> []" "\<forall>ch\<in>set b. isWordChar ch" "\<not> isWordChar c"
  shows "aliasMatches b pw (c # cs) = aliasMatches b False cs"
  using assms word_prefix_head[OF assms(1,2)] by auto

lemma word_dot_prefix:
  assumes "\<forall>ch\<in>set b. isWordChar ch" "\<forall>ch\<in>set w. isWordChar ch"
  shows "prefix (b @ ''.'') (w @ ''.'' @ X) \<longleftrightarrow> b = w"
proof
  assume "prefix (b @ ''.'') (w @ ''.'' @ X)"
  then obtain Y where eq: "w @ CHR ''.'' # X = b @ CHR ''.'' # Y"
    by (auto simp: prefix_def)
  have "takeWhile isWordChar (w @ CHR ''.'' # X) = w"
    using assms(2) by (simp add: takeWhile_tail)
  moreover have "takeWhile isWordChar (b @ CHR ''.'' # Y) = b"
    using assms(1) by (simp add: takeWhile_tail)
  ultimately show "b = w" using eq by simp
next
  assume "b = w"
  then show "prefix (b @ ''.'') (w @ ''.'' @ X)" by simp
qed

lemma aliasMatches_word_dot:
  assumes b: "b \<noteq> []" "\<forall>ch\<in>set b. isWordChar ch"
  shows "\<forall>ch\<in>set w. isWordChar ch \<Longrightarrow>
         aliasMatches b pw (w @ ''.'' @ X) = ((\<not> pw \<and> w = b) \<or> aliasMatches b False X)"
proof (induction w arbitrary: pw)
  case Nil
  have "aliasMatches b pw (CHR ''.'' # X) = aliasMatches b False X"
    by (rule aliasMatches_non_word[OF b]) simp
  with b(1) show ?case by auto
next
  case (Cons x w)
  then have x: "isWordChar x" and w: "\<forall>ch\<in>set w. isWordChar ch" by auto
  have pre: "prefix (b @ ''.'') ((x # w) @ ''.'' @ X) \<longleftrightarrow> b = x # w"
    by (rule word_dot_prefix[OF b(2)]) (use Cons.prems in simp)
  have "aliasMatches b pw ((x # w) @ ''.'' @ X) =
          ((\<not> pw \<and> prefix (b @ ''.'') ((x # w) @ ''.'' @ X)) \<or> aliasMatches b True (w @ ''.'' @ X))"
    using x by auto
  also have "\<dots> = ((\<not> pw \<and> b = x # w) \<or> aliasMatches b False X)"
    using Cons.IH[OF w, of True] pre by simp
  finally show ?case by auto
qed

lemma aliasRe_keeps_word_prefix:
  assumes a: "a \<noteq> []" "\<forall>ch\<in>set a. isWordChar ch"
  shows "\<forall>ch\<in>set b. isWordChar ch \<Longrightarrow>
         prefix (b @ ''.'') (aliasRe_ReplaceAllString a r True cs) \<Longrightarrow> prefix (b @ ''.'') cs"
proof (induction b arbitrary: cs)
  case Nil
  show ?case
  proof (cases cs)
    case Nil
    with Nil.prems show ?thesis by simp
  next
    case (Cons d ds)
    show ?thesis
    proof (cases "isWordChar d")
      case True
      with Nil.prems Cons show ?thesis by auto
    next
      case False
      with Nil.prems Cons aliasRe_non_word[OF a False, of r True ds] show ?thesis
        by (simp del: aliasRe_ReplaceAllString.simps)
    qed
  qed
next
  case (Cons x b)
  then have x: "isWordChar x" and b: "\<forall>ch\<in>set b. isWordChar ch" by auto
  show ?case
  proof (cases cs)
    case Nil
    with Cons.prems show ?thesis by simp
  next
    case cs: (Cons d ds)
    show ?thesis
    proof (cases "isWordChar d")
      case True
      with Cons.prems(2) cs have "x = d" "prefix (b @ ''.'') (aliasRe_ReplaceAllString a r True ds)"
        by auto
      with Cons.IH[OF b] cs show ?thesis by simp
    next
      case False
      with Cons.prems(2) cs aliasRe_non_word[OF a False, of r True ds] have "x = d"
        by (simp del: aliasRe_ReplaceAllString.simps)
      with x False show ?thesis by simp
    qed
  qed
qed

lemma aliasRe_no_new_match:
  assumes a: "a \<noteq> []" "\<forall>ch\<in>set a. isWordChar ch"
    and t: "\<forall>ch\<in>set t. isWordChar ch"
    and b: "b \<noteq> []" "\<forall>ch\<in>set b. isWordChar ch" "b \<noteq> t"
  shows "b = a \<or> \<not> aliasMatches b pw s \<Longrightarrow>
         \<not> aliasMatches b pw (aliasRe_ReplaceAllString a (t @ ''.'') pw s)"
proof (induction "length s" arbitrary: s pw rule: less_induct)
  case less
  show ?case
  proof (cases s)
    case Nil
    then show ?thesis by simp
  next
    case (Cons c cs)
    show ?thesis
    proof (cases "pw \<noteq> isWordChar c \<and> prefix (a @ ''.'') (c # cs)")
      case True
      let ?v = "drop (length a) cs"
      from True obtain zs where zs: "c # cs = (a @ ''.'') @ zs" by (auto simp: prefix_def)
      from a(1) obtain a' where a': "a = c # a'" using zs by (cases a) auto
      with zs have cs: "cs = a' @ ''.'' @ zs" by simp
      then have v: "?v = zs" using a' by simp
      have s_eq: "s = a @ ''.'' @ zs" using Cons zs by simp
      have res: "aliasRe_ReplaceAllString a (t @ ''.'') pw s
                   = t @ ''.'' @ aliasRe_ReplaceAllString a (t @ ''.'') False zs"
        using True Cons v by simp
      have "b = a \<or> \<not> aliasMatches b False zs"
        using less.prems aliasMatches_word_dot[OF b(1,2) a(2), of pw zs] s_eq by auto
      moreover have "length zs < length s" using s_eq by simp
      ultimately have "\<not> aliasMatches b False (aliasRe_ReplaceAllString a (t @ ''.'') False zs)"
        using less.hyps by blast
      then show ?thesis
        using aliasMatches_word_dot[OF b(1,2) t, of pw] b(3) res by auto
    next
      case False
      then have res: "aliasRe_ReplaceAllString a (t @ ''.'') pw s
                   = c # aliasRe_ReplaceAllString a (t @ ''.'') (isWordChar c) cs"
        using Cons by auto
      have tl: "b = a \<or> \<not> aliasMatches b (isWordChar c) cs"
        using less.prems Cons by auto
      have "length cs < length s" using Cons by simp
      with tl have rec: "\<not> aliasMatches b (isWordChar c)
          (aliasRe_ReplaceAllString a (t @ ''.'') (isWordChar c) cs)"
        using less.hyps by blast
      have "\<not> (pw \<noteq> isWordChar c \<and>
          prefix (b @ ''.'') (c # aliasRe_ReplaceAllString a (t @ ''.'') (isWordChar c) cs))"
      proof
        assume h: "pw \<noteq> isWordChar c \<and>
          prefix (b @ ''.'') (c # aliasRe_ReplaceAllString a (t @ ''.'') (isWordChar c) cs)"
        from b(1) obtain b' where b': "b = c # b'" using h by (cases b) auto
        with b(2) have c: "isWordChar c" and bw: "\<forall>ch\<in>set b'. isWordChar ch" by auto
        from h b' c have "prefix (b' @ ''.'') (aliasRe_ReplaceAllString a (t @ ''.'') True cs)"
          by simp
        from aliasRe_keeps_word_prefix[OF a bw this] have "prefix (b @ ''.'') (c # cs)"
          using b' by simp
        with h have m: "pw \<noteq> isWordChar c \<and> prefix (b @ ''.'') (c # cs)" by simp
        show False
        proof (cases "b = a")
          case True
          with m False show False by simp
        next
          case False
          with less.prems Cons m show False by auto
        qed
      qed
      with rec res show ?thesis by auto
    qed
  qed
qed

lemma substituteAliases_no_new_match:
  assumes b: "b \<noteq> []" "\<forall>ch\<in>set b. isWordChar ch"
  shows "\<forall>(a, t)\<in>set es. a \<noteq> [] \<and> (\<forall>ch\<in>set a. isWordChar ch) \<and> (\<forall>ch\<in>set t. isWordChar ch) \<Longrightarrow>
         b \<notin> snd ` set es \<Longrightarrow> \<not> aliasMatches b False s \<Longrightarrow>
         \<not> aliasMatches b False (substituteAliases es s)"
proof (induction es arbitrary: s)
  case Nil
  then show ?case by simp
next
  case (Cons e es)
  obtain a t where e: "e = (a, t)" by (cases e)
  from Cons.prems(1) e have a: "a \<noteq> []" "\<forall>ch\<in>set a. isWordChar ch"
    and t: "\<forall>ch\<in>set t. isWordChar ch" by auto
  from Cons.prems(2) e have bt: "b \<noteq> t" by auto
  have "\<not> aliasMatches b False (aliasRe_ReplaceAllString a (t @ ''.'') False s)"
    using aliasRe_no_new_match[OF a t b bt] Cons.prems(3) by blast
  with Cons.IH[of "aliasRe_ReplaceAllString a (t @ ''.'') False s"] Cons.prems(1,2) e
  show ?case by (simp add: expandTemplate_word[OF t])
qed

lemma substituteAliases_removes_alias:
  "\<forall>(a, t)\<in>set es. a \<noteq> [] \<and> (\<forall>ch\<in>set a. isWordChar ch) \<and> (\<forall>ch\<in>set t. isWordChar ch) \<Longrightarrow>
   b \<in> fst ` set es \<Longrightarrow> b \<notin> snd ` set es \<Longrightarrow>
   \<not> aliasMatches b False (substituteAliases es s)"
proof (induction es arbitrary: s)
  case Nil
  then show ?case by simp
next
  case (Cons e es)
  obtain a t where e: "e = (a, t)" by (cases e)
  from Cons.prems(1) e have a: "a \<noteq> []" "\<forall>ch\<in>set a. isWordChar ch"
    and t: "\<forall>ch\<in>set t. isWordChar ch"
    and rest: "\<forall>(a, t)\<in>set es. a \<noteq> [] \<and> (\<forall>ch\<in>set a. isWordChar ch) \<and> (\<forall>ch\<in>set t. isWordChar ch)"
    by auto
  from Cons.prems(3) e have bt: "b \<noteq> t" and bes: "b \<notin> snd ` set es" by auto
  let ?s = "aliasRe_ReplaceAllString a (t @ ''.'') False s"
  have unfold: "substituteAliases (e # es) s = substituteAliases es ?s"
    using e by (simp add: expandTemplate_word[OF t])
  show ?case
  proof (cases "b \<in> fst ` set es")
    case True
    from Cons.IH[OF rest True bes] unfold show ?thesis by simp
  next
    case False
    with Cons.prems(2) e have ba: "b = a" by auto
    have "\<not> aliasMatches b False ?s"
      using aliasRe_no_new_match[OF a t _ _ bt, of False s] a ba by blast
    from substituteAliases_no_new_match[OF _ _ rest bes this] a ba unfold
    show ?thesis by simp
  qed
qed

lemma substituteAliases_identity:
  "\<forall>(a, t)\<in>set es. \<not> aliasMatches a False s \<Longrightarrow> substituteAliases es s = s"
  by (induction es arbitrary: s) (auto simp: aliasRe_no_match)





















section \<open>Facts about the Extractor\<close>

lemma extractJoin_fields:
  "WhereFilter (extractJoin v j) = WhereFilter v \<and> Action (extractJoin v j) = Action v \<and>
   ColNames (extractJoin v j) = ColNames v \<and> PrimaryTable (extractJoin v j) = PrimaryTable v"
  "WhereFilter (extractSide v s) = WhereFilter v \<and> Action (extractSide v s) = Action v \<and>
   ColNames (extractSide v s) = ColNames v \<and> PrimaryTable (extractSide v s) = PrimaryTable v"
  by (induction v j and v s rule: extractJoin_extractSide.induct)
     (auto simp: Let_def split: resultSource.splits)

lemma extractJoin_tables:
  "set (TableNames (extractJoin v j)) = set (TableNames v) \<union> set (joinTables j)"
  "set (TableNames (extractSide v s)) = set (TableNames v) \<union> set (sideTables s)"
  by (induction v j and v s rule: extractJoin_extractSide.induct)
     (auto simp: Let_def split: resultSource.splits)

lemma extractJoin_distinct:
  "distinct (TableNames v) \<Longrightarrow> distinct (TableNames (extractJoin v j))"
  "distinct (TableNames v) \<Longrightarrow> distinct (TableNames (extractSide v s))"
  by (induction v j and v s rule: extractJoin_extractSide.induct)
     (auto simp: Let_def split: resultSource.splits)

lemma extractTableNames_fields:
  "WhereFilter (extractTableNames v j) = WhereFilter v"
  "Action (extractTableNames v j) = Action v"
  by (auto simp: extractTableNames_def extractJoin_fields split: option.splits)

lemma extractTableNames_mono:
  "set (TableNames v) \<subseteq> set (TableNames (extractTableNames v j))"
  by (auto simp: extractTableNames_def extractJoin_tables split: option.splits)

lemma extractTableNames_Nil:
  "TableNames (extractTableNames v j) = [] \<Longrightarrow> TableNames v = []"
  using extractTableNames_mono[of v j] by simp

lemma appendTable_fields:
  "WhereFilter (appendTable v t) = WhereFilter v"
  "Action (appendTable v t) = Action v"
  "set (TableNames v) \<subseteq> set (TableNames (appendTable v t))"
  by (auto simp: appendTable_def split: option.splits tableName.splits)

lemma appendTables_fields:
  "WhereFilter (appendTables v ts) = WhereFilter v"
  "Action (appendTables v ts) = Action v"
  "set (TableNames v) \<subseteq> set (TableNames (appendTables v ts))"
proof (induction ts arbitrary: v)
  case Nil
  {
    case 1 show ?case by simp
  next
    case 2 show ?case by simp
  next
    case 3 show ?case by simp
  }
next
  case (Cons t ts)
  {
    case 1 show ?case using Cons.IH(1) by (simp add: appendTable_fields)
  next
    case 2 show ?case using Cons.IH(2) by (simp add: appendTable_fields)
  next
    case 3 show ?case
      using Cons.IH(3)[of "appendTable v t"] appendTable_fields(3)[of v t] by auto
  }
qed

lemma extractWhereFilter_fields:
  "Action (extractWhereFilter order v w) = Action v"
  "TableNames (extractWhereFilter order v w) = TableNames v"
  "Action (extractWhereFilterFromExpr order v w) = Action v"
  "TableNames (extractWhereFilterFromExpr order v w) = TableNames v"
  by (auto simp: extractWhereFilter_def extractWhereFilterFromExpr_def
           split: option.splits exprNode.splits restoreResult.splits)

lemma Enter_WhereFilter:
  "\<not> rendersWhere kind \<Longrightarrow> WhereFilter (Enter order v kind) = WhereFilter v"
  by (cases kind rule: rendersWhere.cases)
     (auto simp: Let_def extractWhereFilter_def extractWhereFilterFromExpr_def
                 extractTableNames_fields appendTable_fields appendTables_fields
           split: option.splits tableRefsClause.splits)

lemma Enter_whereFails:
  "whereFails kind \<Longrightarrow> Enter order v kind = Enter order v (withoutWhere kind)"
  by (cases kind rule: whereFails.cases)
     (auto simp: Let_def extractWhereFilter_def extractWhereFilterFromExpr_def)

lemma whereFails_not_renders: "whereFails kind \<Longrightarrow> \<not> rendersWhere kind"
  by (cases kind rule: whereFails.cases) auto

lemma Enter_Action:
  "Action (Enter order v kind) =
     (if isSelectStmt kind then ''SELECT''
      else if isOtherStmt kind then Action (Enter order v kind)
      else Action v)"
  by (cases kind)
     (auto simp: Let_def extractWhereFilter_fields extractTableNames_fields
           split: option.splits tableRefsClause.splits)

lemma Enter_tables_mono:
  "set (TableNames v) \<subseteq> set (TableNames (Enter order v kind))"
proof (cases kind)
  case (InsertStmt t)
  then show ?thesis
    using extractTableNames_mono[of "v\<lparr>Action := ''INSERT''\<rparr>"]
    by (auto simp: Let_def split: option.splits tableRefsClause.splits)
next
  case (UpdateStmt t w)
  then show ?thesis
    using extractTableNames_mono[of "v\<lparr>Action := ''UPDATE''\<rparr>"]
    by (auto simp: Let_def extractWhereFilter_fields dest: extractTableNames_Nil
             split: option.splits tableRefsClause.splits)
next
  case (DeleteStmt t w)
  then show ?thesis
    using extractTableNames_mono[of "v\<lparr>Action := ''DELETE''\<rparr>"]
    by (auto simp: Let_def extractWhereFilter_fields dest: extractTableNames_Nil
             split: option.splits tableRefsClause.splits)
next
  case (SelectStmt t w)
  then show ?thesis
    using extractTableNames_mono[of "v\<lparr>Action := ''SELECT''\<rparr>"]
    by (auto simp: Let_def extractWhereFilter_fields split: option.splits tableRefsClause.splits)
next
  case (AlterTableStmt t)
  then show ?thesis using appendTable_fields(3)[of "v\<lparr>Action := ''ALTER''\<rparr>" t] by simp
next
  case (CreateTableStmt t)
  then show ?thesis using appendTable_fields(3)[of "v\<lparr>Action := ''CREATE''\<rparr>" t] by simp
next
  case (DropTableStmt ts)
  then show ?thesis using appendTables_fields(3)[of "v\<lparr>Action := ''DROP''\<rparr>" ts] by simp
next
  case (TruncateTableStmt t)
  then show ?thesis using appendTable_fields(3)[of "v\<lparr>Action := ''TRUNCATE''\<rparr>" t] by simp
qed simp_all

lemma foldl_keeps:
  "(\<And>c v. c \<in> set cs \<Longrightarrow> f (g v c) = f v) \<Longrightarrow> f (foldl g v cs) = f v"
  by (induction cs arbitrary: v) simp_all

lemma foldl_grows:
  "(\<And>c v. c \<in> set cs \<Longrightarrow> f v \<subseteq> f (g v c)) \<Longrightarrow> f v \<subseteq> f (foldl g v cs)"
proof (induction cs arbitrary: v)
  case Nil
  then show ?case by simp
next
  case (Cons c cs)
  have "f v \<subseteq> f (g v c)" using Cons.prems by simp
  also have "\<dots> \<subseteq> f (foldl g (g v c) cs)" using Cons by simp
  finally show ?case by simp
qed

lemma Accept_WhereFilter:
  "\<not> anyKind rendersWhere n \<Longrightarrow> WhereFilter (Accept order v n) = WhereFilter v"
proof (induction n arbitrary: v)
  case (Node kind children)
  then have k: "\<not> rendersWhere kind" and cs: "\<forall>c\<in>set children. \<not> anyKind rendersWhere c"
    by (auto simp: list_ex_iff)
  have "WhereFilter (foldl (Accept order) (Enter order v kind) children)
          = WhereFilter (Enter order v kind)"
    by (rule foldl_keeps) (use Node.IH cs in blast)
  with k show ?case by (simp add: Enter_WhereFilter)
qed

lemma Accept_tables_mono:
  "set (TableNames v) \<subseteq> set (TableNames (Accept order v n))"
proof (induction n arbitrary: v)
  case (Node kind children)
  have "set (TableNames (Enter order v kind))
          \<subseteq> set (TableNames (foldl (Accept order) (Enter order v kind) children))"
    by (rule foldl_grows[where f = "\<lambda>v. set (TableNames v)"]) (use Node.IH in blast)
  with Enter_tables_mono[of v order kind] show ?case by auto
qed

lemma foldl_Action:
  assumes "\<And>c v. c \<in> set cs \<Longrightarrow>
             Action (Accept order v c) = (if anyKind isSelectStmt c then ''SELECT'' else Action v)"
  shows "Action (foldl (Accept order) v cs) =
           (if list_ex (anyKind isSelectStmt) cs then ''SELECT'' else Action v)"
  using assms by (induction cs arbitrary: v) auto

lemma Accept_Action:
  "\<not> anyKind isOtherStmt n \<Longrightarrow>
   Action (Accept order v n) = (if anyKind isSelectStmt n then ''SELECT'' else Action v)"
proof (induction n arbitrary: v)
  case (Node kind children)
  then have k: "\<not> isOtherStmt kind" and cs: "\<forall>c\<in>set children. \<not> anyKind isOtherStmt c"
    by (auto simp: list_ex_iff)
  have "Action (foldl (Accept order) (Enter order v kind) children) =
          (if list_ex (anyKind isSelectStmt) children then ''SELECT''
           else Action (Enter order v kind))"
    by (rule foldl_Action) (use Node.IH cs in blast)
  moreover have "Action (Enter order v kind) = (if isSelectStmt kind then ''SELECT'' else Action v)"
    using Enter_Action[of order v kind] k by presburger
  ultimately show ?case by auto
qed


lemma extractTableNames_distinct:
  "distinct (TableNames v) \<Longrightarrow> distinct (TableNames (extractTableNames v j))"
  by (auto simp: extractTableNames_def extractJoin_distinct split: option.splits)

lemma Enter_distinct:
  assumes "\<not> isDDL kind" "distinct (TableNames v)"
  shows "distinct (TableNames (Enter order v kind))"
proof (cases kind)
  case (InsertStmt t)
  then show ?thesis
    using extractTableNames_distinct[of "v\<lparr>Action := ''INSERT''\<rparr>"] assms(2)
    by (auto simp: Let_def split: option.splits tableRefsClause.splits)
next
  case (UpdateStmt t w)
  then show ?thesis
    using extractTableNames_distinct[of "v\<lparr>Action := ''UPDATE''\<rparr>"] assms(2)
    by (auto simp: Let_def extractWhereFilter_fields split: option.splits tableRefsClause.splits)
next
  case (DeleteStmt t w)
  then show ?thesis
    using extractTableNames_distinct[of "v\<lparr>Action := ''DELETE''\<rparr>"] assms(2)
    by (auto simp: Let_def extractWhereFilter_fields split: option.splits tableRefsClause.splits)
next
  case (SelectStmt t w)
  then show ?thesis
    using extractTableNames_distinct[of "v\<lparr>Action := ''SELECT''\<rparr>"] assms(2)
    by (auto simp: Let_def extractWhereFilter_fields split: option.splits tableRefsClause.splits)
qed (use assms in simp_all)

lemma foldl_invariant:
  "P v \<Longrightarrow> (\<And>c v. c \<in> set cs \<Longrightarrow> P v \<Longrightarrow> P (g v c)) \<Longrightarrow> P (foldl g v cs)"
  by (induction cs arbitrary: v) simp_all

lemma Accept_distinct:
  "\<not> anyKind isDDL n \<Longrightarrow> distinct (TableNames v) \<Longrightarrow> distinct (TableNames (Accept order v n))"
proof (induction n arbitrary: v)
  case (Node kind children)
  then have k: "\<not> isDDL kind" and cs: "\<forall>c\<in>set children. \<not> anyKind isDDL c"
    by (auto simp: list_ex_iff)
  have "distinct (TableNames (foldl (Accept order) (Enter order v kind) children))"
    by (rule foldl_invariant[where P = "\<lambda>v. distinct (TableNames v)"])
       (use Node.IH cs Enter_distinct[OF k Node.prems(2)] in auto)
  then show ?case by simp
qed

lemma Extract_distinct_without_DDL:
  "\<not> anyKind isDDL n \<Longrightarrow> distinct (fst (snd (Extract order n)))"
  using Accept_distinct[of n newColX order] by (simp add: Extract_def Let_def newColX_def)

section \<open>Facts about the DumpPlanGenerator\<close>

lemma joinClauses_prefix:
  "joinClauses toLower tableName tbls out = Done out' \<Longrightarrow> prefix out out'"
proof (induction tbls arbitrary: out)
  case Nil
  then show ?case by simp
next
  case (Cons tbl tbls)
  show ?case
  proof (cases "tbl \<noteq> tableName")
    case True
    with Cons.prems obtain al where
      "joinClauses toLower tableName tbls
         (out @ ''JOIN '' @ tbl @ '' '' @ al @ '' ON <join_condition> '') = Done out'"
      by (auto split: option.splits)
    from Cons.IH[OF this] show ?thesis by (auto elim: append_prefixD)
  next
    case False
    with Cons show ?thesis by simp
  qed
qed

lemma helperBlock_comments:
  assumes "helperBlock toLower connOpts database whereFilter tableName tableNames = Done out"
  shows "\<forall>l\<in>set out. prefix ''#'' l"
proof -
  let ?start = "''# mysql -N -e '' @ [CHR 0x22] @ ''SELECT e.id FROM '' @ tableName @ '' e ''"
  from assms obtain j where j: "joinClauses toLower tableName tableNames ?start = Done j"
    by (auto simp: helperBlock_def Let_def split: run.splits)
  from joinClauses_prefix[OF j] have "prefix ''#'' j"
    by (auto simp: prefix_def)
  then have "prefix ''#'' (j @ rest)" for rest
    by (auto simp: prefix_def)
  with assms j show ?thesis
    by (auto simp: helperBlock_def Let_def)
qed

lemma dumpTable_directive:
  assumes "dumpTable toLower connOpts database tableNames action whereFilter primaryTable
             tableName = Done out"
  shows "filter (\<lambda>l. \<not> prefix ''#'' l) out
           = [exportDirective connOpts database whereFilter tableNames tableName]"
proof -
  let ?d = "exportDirective connOpts database whereFilter tableNames tableName"
  have d: "\<not> prefix ''#'' ?d" by (simp add: exportDirective_def)
  from assms obtain h where h: "out = h @ [?d]" and c: "\<forall>l\<in>set h. prefix ''#'' l"
    by (auto simp: dumpTable_def Let_def exportDirective_def
             split: if_splits run.splits dest: helperBlock_comments)
  from c have "filter (\<lambda>l. \<not> prefix ''#'' l) h = []" by (simp add: filter_empty_conv)
  with h d show ?thesis by simp
qed

lemma dumpTables_directives:
  "dumpTables toLower connOpts database tableNames action whereFilter primaryTable ts acc
     = Done out \<Longrightarrow>
   filter (\<lambda>l. \<not> prefix ''#'' l) out
     = filter (\<lambda>l. \<not> prefix ''#'' l) acc
       @ map (exportDirective connOpts database whereFilter tableNames) ts"
proof (induction ts arbitrary: acc)
  case Nil
  then show ?case by simp
next
  case (Cons t ts)
  from Cons.prems obtain lines where
    l: "dumpTable toLower connOpts database tableNames action whereFilter primaryTable t
          = Done lines"
    and r: "dumpTables toLower connOpts database tableNames action whereFilter primaryTable ts
          (acc @ lines) = Done out"
    by (auto split: run.splits)
  from Cons.IH[OF r] dumpTable_directive[OF l] show ?case by simp
qed

lemma dumpStatement_directives:
  assumes "tableNames \<noteq> []"
    and "dumpStatement toLower connOpts database tableNames action whereFilter primaryTable
           = Done out"
  shows "filter (\<lambda>l. \<not> prefix ''#'' l) out
           = map (exportDirective connOpts database whereFilter tableNames)
               (tablesToExport tableNames action primaryTable)"
  using assms dumpTables_directives[of toLower connOpts database tableNames action whereFilter
      primaryTable "tablesToExport tableNames action primaryTable" "[]" out]
  by (simp add: dumpStatement_def tablesToExport_def Let_def)

section \<open>Properties of the PerTableFilterSplitter\<close>

text \<open>
  Claim C1, as stated: for a non-empty filter and more than one table the result is
  \<^const>\<open>PerTableFilter_spec\<close>, which keeps a condition without table prefix unmodified.  The
  code trims every condition with \<^verbatim>\<open>strings.TrimSpace\<close> before it looks at it, so a
  condition that ends in white space (here: the front half of a string literal that the
  separator cuts in two) is not kept as it was.
\<close>

theorem FilterWhereForTable_untrimmed_counterexample:
  "FilterWhereForTable (''note='a  and b'' @ [CHR 0x27]) ''t'' [''t'', ''u'']
     = ''note='a and b'' @ [CHR 0x27] \<and>
   PerTableFilter_spec (''note='a  and b'' @ [CHR 0x27]) ''t'' [''t'', ''u'']
     = ''note='a  and b'' @ [CHR 0x27] \<and>
   FilterWhereForTable (''note='a  and b'' @ [CHR 0x27]) ''t'' [''t'', ''u'']
     \<noteq> PerTableFilter_spec (''note='a  and b'' @ [CHR 0x27]) ''t'' [''t'', ''u'']"
  by code_simp

text \<open>
  Claim C1, amended: for a non-empty filter and more than one table,
  \<^verbatim>\<open>FilterWhereForTable\<close> splits the filter on \<^verbatim>\<open>" and "\<close>, trims every condition of
  surrounding white space, keeps a trimmed condition that contains \<open>target.\<close> with that
  qualifier removed, drops one that contains the qualifier of a table of the statement,
  keeps any other trimmed condition as it is, and rejoins what is kept with \<^verbatim>\<open>" and "\<close> in
  the original order.
\<close>

theorem FilterWhereForTable_refines_trimmed_spec:
  "whereFilter \<noteq> [] \<Longrightarrow> 1 < length allTables \<Longrightarrow>
   FilterWhereForTable whereFilter tableName allTables =
     PerTableFilter_trimmed_spec whereFilter tableName allTables"
  by (simp add: FilterWhereForTable_multi filterLoop_eq PerTableFilter_trimmed_spec_def)

theorem FilterWhereForTable_refines_trimmed_spec_witness:
  "''users.active=1 and posts.published=TRUE and deleted=0'' \<noteq> [] \<and>
   1 < length [''users'', ''posts''] \<and>
   FilterWhereForTable ''users.active=1 and posts.published=TRUE and deleted=0''
     ''users'' [''users'', ''posts''] = ''active=1 and deleted=0'' \<and>
   PerTableFilter_trimmed_spec ''users.active=1 and posts.published=TRUE and deleted=0''
     ''users'' [''users'', ''posts''] = ''active=1 and deleted=0''"
proof -
  have v: "PerTableFilter_trimmed_spec ''users.active=1 and posts.published=TRUE and deleted=0''
     ''users'' [''users'', ''posts''] = ''active=1 and deleted=0''"
    by code_simp
  have h1: "''users.active=1 and posts.published=TRUE and deleted=0'' \<noteq> []" by simp
  have h2: "1 < length [''users'', ''posts'']" by simp
  show ?thesis
    using FilterWhereForTable_refines_trimmed_spec [OF h1 h2, of "''users''"] v h1 h2
    by simp
qed

text \<open>
  Claim C2, as stated: the per-table filter for \<open>T\<close> never has \<open>T.\<close> as a condition prefix.
  With a single table the filter is returned as it is, qualifiers included; with several
  tables, removing one occurrence of \<open>T.\<close> can join the text around it into a new one, when
  the occurrence stands inside a word (\<open>tt..id\<close> for the table \<open>t\<close>) or when the table name
  has a character that is not a word character (\<open>a-a-b.b.x\<close> for the table \<open>a-b\<close>).
\<close>

theorem FilterWhereForTable_target_prefix_counterexample:
  "prefix ''users.'' (FilterWhereForTable ''users.id=1'' ''users'' [''users'']) \<and>
   prefix ''t.'' (FilterWhereForTable ''tt..id=1'' ''t'' [''t'', ''u'']) \<and>
   prefix ''a-b.'' (FilterWhereForTable ''a-a-b.b.x=1'' ''a-b'' [''a-b'', ''u''])"
  by code_simp

text \<open>
  Claim C2, amended: when the statement has more than one table, the name of the target
  table \<open>T\<close> consists of word characters, and \<open>T.\<close> occurs in the (trimmed) conditions of the
  filter only where no word character precedes it, the per-table filter for \<open>T\<close> does not
  contain \<open>T.\<close> anywhere, so no condition of it begins with \<open>T.\<close>.
\<close>

theorem FilterWhereForTable_no_target_prefix:
  assumes many: "1 < length allTables"
    and word: "\<forall>ch\<in>set tableName. isWordChar ch"
    and starts: "\<forall>c\<in>set (strings_Split whereFilter '' and '').
                  atWordStarts (tableName @ ''.'') False (strings_TrimSpace c)"
  shows "\<not> sublist (tableName @ ''.'') (FilterWhereForTable whereFilter tableName allTables)"
proof (cases "whereFilter = []")
  case True
  then show ?thesis by (simp add: FilterWhereForTable_def)
next
  case False
  let ?p = "tableName @ ''.''"
  let ?rs = "filterLoop tableName allTables (strings_Split whereFilter '' and '') []"
  have "\<not> sublist ?p r" if "r \<in> set ?rs" for r
  proof -
    from that obtain c where c: "c \<in> set (strings_Split whereFilter '' and '')"
      and r: "specCondition tableName allTables (strings_TrimSpace c) = Some r"
      by (auto simp: filterLoop_eq set_map_filter_iff)
    from starts c have "atWordStarts ?p False (strings_TrimSpace c)" by blast
    from ReplaceAll_clean[OF word this] r show ?thesis
      by (auto simp: specCondition_def split: if_splits)
  qed
  moreover have "CHR '' '' \<notin> set ?p" using word by auto
  moreover have "\<not> sublist ?p '' and ''"
  proof
    assume "sublist ?p '' and ''"
    then have "set ?p \<subseteq> set '' and ''" by (rule set_mono_sublist)
    then show False by simp
  qed
  ultimately have "\<not> sublist ?p (strings_Join ?rs '' and '')"
    using Join_and_clean by blast
  with False many show ?thesis by (simp add: FilterWhereForTable_multi)
qed

theorem FilterWhereForTable_no_target_prefix_witness:
  "1 < length [''users'', ''posts''] \<and>
   list_all isWordChar ''users'' \<and>
   list_all (\<lambda>c. atWordStarts (''users'' @ ''.'') False (strings_TrimSpace c))
     (strings_Split ''users.active=1 and posts.published=TRUE'' '' and '') \<and>
   FilterWhereForTable ''users.active=1 and posts.published=TRUE'' ''users''
     [''users'', ''posts''] = ''active=1'' \<and>
   \<not> sublist (''users'' @ ''.'')
       (FilterWhereForTable ''users.active=1 and posts.published=TRUE'' ''users''
          [''users'', ''posts''])"
proof -
  have h1: "1 < length [''users'', ''posts'']" by simp
  have h2: "\<forall>ch\<in>set ''users''. isWordChar ch" by (simp add: isWordChar_def)
  have h3: "\<forall>c\<in>set (strings_Split ''users.active=1 and posts.published=TRUE'' '' and '').
       atWordStarts (''users'' @ ''.'') False (strings_TrimSpace c)"
    by code_simp
  have v: "FilterWhereForTable ''users.active=1 and posts.published=TRUE'' ''users''
     [''users'', ''posts''] = ''active=1''"
    by code_simp
  show ?thesis
    using FilterWhereForTable_no_target_prefix [OF h1 h2 h3] h1 h2 h3 v
    unfolding list_all_iff by blast
qed

text \<open>
  Claim C9.  For a non-empty filter and more than one table, a trimmed condition counts as
  a condition of table \<open>T\<close> as soon as the text \<open>T.\<close> occurs anywhere in it, whatever stands
  before or after (a quote, a longer identifier).  For the target table the kept text is
  the condition with every occurrence of \<open>target.\<close> cut out: the pieces between the
  occurrences, none of which contains \<open>target.\<close>, glued together.
\<close>

theorem FilterWhereForTable_substring_classification:
  assumes "whereFilter \<noteq> []" and "1 < length allTables"
  shows "FilterWhereForTable whereFilter tableName allTables =
           strings_Join (List.map_filter (substringClassify tableName allTables)
             (map strings_TrimSpace (strings_Split whereFilter '' and ''))) '' and '' \<and>
         (\<forall>c. strings_Join (strings_Split c (tableName @ ''.'')) (tableName @ ''.'') = c \<and>
              (\<forall>piece\<in>set (strings_Split c (tableName @ ''.'')).
                  \<not> (\<exists>u v. piece = u @ tableName @ ''.'' @ v)))"
proof -
  have "specCondition tableName allTables = substringClassify tableName allTables"
    by (rule ext) (rule specCondition_substringClassify)
  with assms have "FilterWhereForTable whereFilter tableName allTables =
           strings_Join (List.map_filter (substringClassify tableName allTables)
             (map strings_TrimSpace (strings_Split whereFilter '' and ''))) '' and ''"
    by (simp add: FilterWhereForTable_multi filterLoop_eq)
  moreover have "strings_Join (strings_Split c (tableName @ ''.'')) (tableName @ ''.'') = c" for c
    by (simp add: strings_Join_Split)
  moreover have "\<not> (\<exists>u v. piece = u @ tableName @ ''.'' @ v)"
    if "piece \<in> set (strings_Split c (tableName @ ''.''))" for c piece
    using strings_Split_pieces[OF _ that] by (simp add: sublist_def)
  ultimately show ?thesis by blast
qed

theorem FilterWhereForTable_substring_classification_witness:
  "''note='users.x' and xposts.users.a=users.b'' \<noteq> [] \<and>
   1 < length [''users'', ''posts''] \<and>
   FilterWhereForTable ''note='users.x' and xposts.users.a=users.b'' ''users''
     [''users'', ''posts''] = ''note='x' and xposts.a=b'' \<and>
   FilterWhereForTable ''note='users.x' and xposts.users.a=users.b'' ''posts''
     [''users'', ''posts''] = ''xusers.a=users.b''"
proof -
  have h1: "''note='users.x' and xposts.users.a=users.b'' \<noteq> []" by simp
  have h2: "1 < length [''users'', ''posts'']" by simp
  have v1: "FilterWhereForTable ''note='users.x' and xposts.users.a=users.b'' ''users''
     [''users'', ''posts''] = ''note='x' and xposts.a=b''"
    by code_simp
  have v2: "FilterWhereForTable ''note='users.x' and xposts.users.a=users.b'' ''posts''
     [''users'', ''posts''] = ''xusers.a=users.b''"
    by code_simp
  show ?thesis
    using FilterWhereForTable_substring_classification [OF h1 h2, of "''users''"] v1 v2 h1 h2
    by simp
qed

text \<open>
  Claim C4.  When the table list of the statement holds exactly one table,
  \<^verbatim>\<open>FilterWhereForTable\<close> returns the WHERE filter unchanged, whatever the target table is.
\<close>

theorem FilterWhereForTable_single_table:
  "length allTables = 1 \<Longrightarrow> FilterWhereForTable whereFilter tableName allTables = whereFilter"
  by (simp add: FilterWhereForTable_def)

theorem FilterWhereForTable_single_table_witness:
  "length [''users''] = 1 \<and>
   FilterWhereForTable ''users.id=1 and active=1'' ''orders'' [''users'']
     = ''users.id=1 and active=1''"
  using FilterWhereForTable_single_table [of "[''users'']" "''users.id=1 and active=1''" "''orders''"]
  by simp

section \<open>Properties of the WhereRenderer\<close>

text \<open>
  Claim C5, as stated: one pass of the alias substitution leaves no alias prefix, so a second
  pass changes nothing, for every alias map and text.  This fails when a table name holds a
  character that is not a word character, followed by its own alias (table \<open>my-t\<close> with
  alias \<open>t\<close>); when a table name is also an alias of the map and its entry is visited first
  (\<open>orders\<close> is the alias of \<open>items\<close>, \<open>o\<close> the alias of \<open>orders\<close>); and when an alias holds
  a character that is not a word character (alias \<open>a.b\<close> of table \<open>a\<close>).
\<close>

theorem substituteAliases_twice_counterexample:
  "substituteAliases [(''t'', ''my-t'')] ''t.x=1'' = ''my-t.x=1'' \<and>
   substituteAliases [(''t'', ''my-t'')] ''my-t.x=1'' = ''my-my-t.x=1'' \<and>
   substituteAliases [(''orders'', ''items''), (''o'', ''orders'')] ''o.id=1'' = ''orders.id=1'' \<and>
   substituteAliases [(''orders'', ''items''), (''o'', ''orders'')] ''orders.id=1'' = ''items.id=1'' \<and>
   substituteAliases [(''a.b'', ''a'')] ''a.b.b.x=1'' = ''a.b.x=1'' \<and>
   substituteAliases [(''a.b'', ''a'')] ''a.b.x=1'' = ''a.x=1''"
  by code_simp

text \<open>
  Claim C5, amended: when every alias of the map is a non-empty string of word characters,
  every table name of the map is a string of word characters, and no table name of the map
  is also one of its aliases, then applying the alias substitution a second time (in any
  order of the map's entries) to the result of a first pass (in any order) changes nothing:
  no alias prefix remains after one pass.
\<close>

theorem substituteAliases_idempotent:
  assumes wf: "\<forall>(a, t)\<in>set entries.
                 a \<noteq> [] \<and> (\<forall>ch\<in>set a. isWordChar ch) \<and> (\<forall>ch\<in>set t. isWordChar ch)"
    and disj: "fst ` set entries \<inter> snd ` set entries = {}"
    and same: "set entries' = set entries"
  shows "substituteAliases entries' (substituteAliases entries s) = substituteAliases entries s
         \<and> (\<forall>(a, t)\<in>set entries. \<not> aliasMatches a False (substituteAliases entries s))"
proof -
  have none: "\<not> aliasMatches a False (substituteAliases entries s)" if "(a, t) \<in> set entries" for a t
  proof -
    from that have "a \<in> fst ` set entries" by force
    moreover from this disj have "a \<notin> snd ` set entries" by auto
    ultimately show ?thesis using substituteAliases_removes_alias[OF wf] by blast
  qed
  then have "\<forall>(a, t)\<in>set entries'. \<not> aliasMatches a False (substituteAliases entries s)"
    using same by auto
  from substituteAliases_identity[OF this] none show ?thesis by auto
qed

theorem substituteAliases_idempotent_witness:
  "substituteAliases [(''u'', ''users''), (''p'', ''posts'')] ''u.id=p.user_id and up.x=1''
     = ''users.id=posts.user_id and up.x=1'' \<and>
   substituteAliases [(''p'', ''posts''), (''u'', ''users'')]
     (substituteAliases [(''u'', ''users''), (''p'', ''posts'')] ''u.id=p.user_id and up.x=1'')
     = ''users.id=posts.user_id and up.x=1''"
proof -
  let ?es = "[(''u'', ''users''), (''p'', ''posts'')]"
  have wf: "\<forall>(a, t)\<in>set ?es.
              a \<noteq> [] \<and> (\<forall>ch\<in>set a. isWordChar ch) \<and> (\<forall>ch\<in>set t. isWordChar ch)"
    by (simp add: isWordChar_def)
  have disj: "fst ` set ?es \<inter> snd ` set ?es = {}" by simp
  have same: "set [(''p'', ''posts''), (''u'', ''users'')] = set ?es" by auto
  have v: "substituteAliases ?es ''u.id=p.user_id and up.x=1''
     = ''users.id=posts.user_id and up.x=1''"
    by code_simp
  show ?thesis
    using substituteAliases_idempotent [OF wf disj same, of "''u.id=p.user_id and up.x=1''"] v
    by simp
qed




section \<open>Properties of the Extractor\<close>

text \<open>
  Claim C3 says that the \<open>tables\<close> sequence of every statement is free of duplicates, DROP
  with several listed tables included.  The join-tree walk looks a name up before it appends
  it; the DROP case appends every listed name without looking.  For
  \<^verbatim>\<open>DROP TABLE users, users\<close> the result lists \<open>users\<close> twice.  (A tree without ALTER,
  CREATE, DROP and TRUNCATE nodes yields a list without duplicates: lemma
  \<open>Extract_distinct_without_DDL\<close>.)
\<close>

theorem Extract_drop_table_duplicates:
  "Extract order (Node (DropTableStmt [Some (TableName ''users''), Some (TableName ''users'')]) [])
     = ([], [''users'', ''users''], ''DROP'', [], []) \<and>
   \<not> distinct (fst (snd (Extract order
       (Node (DropTableStmt [Some (TableName ''users''), Some (TableName ''users'')]) []))))"
  by (simp add: Extract_def newColX_def appendTable_def)

text \<open>
  Claim C7, as stated: when \<^verbatim>\<open>Restore\<close> fails on the WHERE subtree of a statement, the WHERE
  filter of the result is empty.  \<^verbatim>\<open>Enter\<close> never skips children, so a SELECT nested in the
  statement is entered as well, and when its own WHERE expression serializes, its filter is
  the WHERE filter of the result:
  \<^verbatim>\<open>SELECT * FROM orders WHERE ... id IN (SELECT id FROM refunds WHERE reason = 1)\<close>
  with an outer WHERE that fails to serialize reports \<^verbatim>\<open>reason=1\<close>.
\<close>

theorem Extract_where_restore_error_counterexample:
  "whereFails (SelectStmt
      (Some (TableRefsClause (Some (Join (TableSource (SourceTableName ''orders'') []) NilNode))))
      (Some (ExprNode RestoreError))) \<and>
   Extract id (Node (SelectStmt
      (Some (TableRefsClause (Some (Join (TableSource (SourceTableName ''orders'') []) NilNode))))
      (Some (ExprNode RestoreError)))
     [Node (SelectStmt
        (Some (TableRefsClause (Some (Join (TableSource (SourceTableName ''refunds'') []) NilNode))))
        (Some (ExprNode (RestoreOK ([CHR 0x60] @ ''reason'' @ [CHR 0x60] @ ''=1'')))))
        [Node (ColumnName ''reason'') []]])
     = ([''reason''], [''orders'', ''refunds''], ''SELECT'', ''reason=1'', [])"
  by code_simp

text \<open>
  Claim C7, amended.  When \<^verbatim>\<open>Restore\<close> fails on the WHERE expression of an UPDATE, DELETE
  or SELECT node, entering the node does exactly what entering the same statement without a
  WHERE clause does: the WHERE filter of the visitor is left as it was, the other fields are
  filled as usual, and the result of \<^verbatim>\<open>Extract\<close> is that of the statement without WHERE
  clause.  The WHERE filter of the result is empty when no statement nested in it has a
  WHERE expression that serializes.  No error value exists in the result.
\<close>

theorem Extract_where_restore_error:
  assumes "whereFails kind"
  shows "Enter order v kind = Enter order v (withoutWhere kind) \<and>
         WhereFilter (Enter order v kind) = WhereFilter v \<and>
         Extract order (Node kind children) = Extract order (Node (withoutWhere kind) children) \<and>
         ((\<forall>c\<in>set children. \<not> anyKind rendersWhere c) \<longrightarrow>
            fst (snd (snd (snd (Extract order (Node kind children))))) = [])"
proof -
  have e: "Enter order v kind = Enter order v (withoutWhere kind)" for v
    using assms by (rule Enter_whereFails)
  have w: "WhereFilter (Enter order v kind) = WhereFilter v" for v
    using assms by (simp add: Enter_WhereFilter whereFails_not_renders)
  have x: "Extract order (Node kind children) = Extract order (Node (withoutWhere kind) children)"
    by (simp add: Extract_def e)
  have "fst (snd (snd (snd (Extract order (Node kind children))))) = []"
    if "\<forall>c\<in>set children. \<not> anyKind rendersWhere c"
  proof -
    have "\<not> anyKind rendersWhere (Node kind children)"
      using that assms by (simp add: list_ex_iff whereFails_not_renders)
    then have "WhereFilter (Accept order newColX (Node kind children)) = WhereFilter newColX"
      by (rule Accept_WhereFilter)
    then show ?thesis by (simp add: Extract_def Let_def newColX_def)
  qed
  with e w x show ?thesis by blast
qed

theorem Extract_where_restore_error_witness:
  "whereFails (DeleteStmt
      (Some (TableRefsClause (Some (Join (TableSource (SourceTableName ''users'') ''u'') NilNode))))
      (Some (ExprNode RestoreError))) \<and>
   Extract id (Node (DeleteStmt
      (Some (TableRefsClause (Some (Join (TableSource (SourceTableName ''users'') ''u'') NilNode))))
      (Some (ExprNode RestoreError))) [Node (ColumnName ''id'') []])
     = ([''id''], [''users''], ''DELETE'', [], ''users'')"
proof -
  let ?k = "DeleteStmt
      (Some (TableRefsClause (Some (Join (TableSource (SourceTableName ''users'') ''u'') NilNode))))
      (Some (ExprNode RestoreError))"
  have h: "whereFails ?k" by simp
  have "Extract id (Node (withoutWhere ?k) [Node (ColumnName ''id'') []])
          = ([''id''], [''users''], ''DELETE'', [], ''users'')"
    by (simp add: Extract_def newColX_def extractTableNames_def extractWhereFilter_def Let_def)
  with Extract_where_restore_error [OF h, of id _ "[Node (ColumnName ''id'') []]"] h
  show ?thesis by simp
qed

text \<open>
  Claim C10.  An INSERT node below which some node is a SELECT node (the \<^verbatim>\<open>Select\<close> field
  of INSERT ... SELECT, or a SELECT inside it) and every statement node is a SELECT: since
  \<^verbatim>\<open>Enter\<close> never skips children, the SELECT node is entered after the INSERT node and the
  action of the result is \<^verbatim>\<open>SELECT\<close>.  For a SELECT node among the children of the INSERT
  node, the tables of its FROM clause are among the tables of the result, and when no node
  behind it renders a WHERE filter of its own, the WHERE filter of the result is the one
  set on entering that SELECT node.
\<close>

theorem Extract_insert_select:
  assumes only: "\<forall>c\<in>set children. \<not> anyKind isOtherStmt c"
    and sel: "list_ex (anyKind isSelectStmt) children"
  shows "case Extract order (Node (InsertStmt table) children) of
           (colNames, tableNames, action, whereFilter, primaryTable) \<Rightarrow>
             action = ''SELECT'' \<and>
             (\<forall>before from whereExpr kids rest.
                children = before @ Node (SelectStmt from whereExpr) kids # rest \<longrightarrow>
                  (\<forall>j. from = Some (TableRefsClause (Some j)) \<longrightarrow>
                       set (joinTables j) \<subseteq> set tableNames) \<and>
                  ((\<forall>c\<in>set (kids @ rest). \<not> anyKind rendersWhere c) \<longrightarrow>
                     whereFilter = WhereFilter (Enter order
                       (foldl (Accept order) (Enter order newColX (InsertStmt table)) before)
                       (SelectStmt from whereExpr))))"
proof -
  let ?v0 = "Enter order newColX (InsertStmt table)"
  let ?final = "Accept order newColX (Node (InsertStmt table) children)"
  have "Action (foldl (Accept order) ?v0 children) =
          (if list_ex (anyKind isSelectStmt) children then ''SELECT'' else Action ?v0)"
    by (rule foldl_Action) (use only Accept_Action in blast)
  with sel have action: "Action ?final = ''SELECT''"
    by simp
  have part: "(\<forall>j. from = Some (TableRefsClause (Some j)) \<longrightarrow>
                 set (joinTables j) \<subseteq> set (TableNames ?final)) \<and>
              ((\<forall>c\<in>set (kids @ rest). \<not> anyKind rendersWhere c) \<longrightarrow>
                 WhereFilter ?final = WhereFilter (Enter order
                   (foldl (Accept order) ?v0 before) (SelectStmt from whereExpr)))"
    if children: "children = before @ Node (SelectStmt from whereExpr) kids # rest"
    for before "from" whereExpr kids rest
  proof -
    let ?v1 = "foldl (Accept order) ?v0 before"
    let ?v2 = "Enter order ?v1 (SelectStmt from whereExpr)"
    let ?v3 = "foldl (Accept order) ?v2 kids"
    let ?v4 = "foldl (Accept order) ?v3 rest"
    have final: "?final = ?v4"
      by (simp add: children)
    have grow: "set (TableNames ?v2) \<subseteq> set (TableNames ?v4)"
    proof -
      have "set (TableNames ?v2) \<subseteq> set (TableNames ?v3)"
        by (rule foldl_grows[where f = "\<lambda>v. set (TableNames v)"]) (rule Accept_tables_mono)
      also have "\<dots> \<subseteq> set (TableNames ?v4)"
        by (rule foldl_grows[where f = "\<lambda>v. set (TableNames v)"]) (rule Accept_tables_mono)
      finally show ?thesis .
    qed
    have tables: "set (joinTables j) \<subseteq> set (TableNames ?v4)"
      if "from = Some (TableRefsClause (Some j))" for j
    proof -
      have "set (joinTables j) \<subseteq> set (TableNames ?v2)"
        using that by (simp add: Let_def extractWhereFilter_fields extractTableNames_def
            extractJoin_tables)
      with grow show ?thesis by blast
    qed
    have flt: "WhereFilter ?v4 = WhereFilter ?v2"
      if "\<forall>c\<in>set (kids @ rest). \<not> anyKind rendersWhere c"
    proof -
      have "WhereFilter ?v4 = WhereFilter ?v3"
        by (rule foldl_keeps) (use that Accept_WhereFilter in auto)
      also have "\<dots> = WhereFilter ?v2"
        by (rule foldl_keeps) (use that Accept_WhereFilter in auto)
      finally show ?thesis .
    qed
    from tables flt show ?thesis unfolding final by blast
  qed
  have "Extract order (Node (InsertStmt table) children) =
          (ColNames ?final, TableNames ?final, Action ?final, WhereFilter ?final,
           PrimaryTable ?final)"
    by (simp add: Extract_def Let_def)
  then show ?thesis
    using action part by (simp only: prod.case) blast
qed

theorem Extract_insert_select_witness:
  "Extract id (Node (InsertStmt
       (Some (TableRefsClause (Some (Join (TableSource (SourceTableName ''archive'') []) NilNode)))))
     [Node (SelectStmt
         (Some (TableRefsClause (Some (Join (TableSource (SourceTableName ''users'') ''u'') NilNode))))
         (Some (ExprNode (RestoreOK ''`u`.`active`=0''))))
        [Node (ColumnName ''active'') []],
      Node OtherNode []])
   = ([''active''], [''archive'', ''users''], ''SELECT'', ''users.active=0'', [])"
proof -
  let ?sel = "SelectStmt
         (Some (TableRefsClause (Some (Join (TableSource (SourceTableName ''users'') ''u'') NilNode))))
         (Some (ExprNode (RestoreOK ''`u`.`active`=0'')))"
  let ?children = "[Node ?sel [Node (ColumnName ''active'') []], Node OtherNode []]"
  let ?table = "Some (TableRefsClause (Some (Join (TableSource (SourceTableName ''archive'') []) NilNode)))"
  let ?x = "Extract id (Node (InsertStmt ?table) ?children)"
  have c: "?children = [] @ Node ?sel [Node (ColumnName ''active'') []] # [Node OtherNode []]"
    by simp
  have only: "\<forall>c\<in>set ?children. \<not> anyKind isOtherStmt c" by simp
  have sel: "list_ex (anyKind isSelectStmt) ?children" by simp
  have quiet: "\<forall>c\<in>set ([Node (ColumnName ''active'') []] @ [Node OtherNode []]).
                 \<not> anyKind rendersWhere c"
    by simp
  have cols: "fst ?x = [''active'']"
    and prim: "snd (snd (snd (snd ?x))) = []"
    and tabs: "fst (snd ?x) = [''archive'', ''users'']"
    by (simp_all add: Extract_def newColX_def extractTableNames_def extractWhereFilter_def Let_def)
  have flt: "WhereFilter (Enter id (foldl (Accept id) (Enter id newColX (InsertStmt ?table)) [])
      ?sel) = ''users.active=0''"
    by code_simp
  obtain cs ts a w p where x: "?x = (cs, ts, a, w, p)"
    by (cases ?x)
  from Extract_insert_select [OF only sel, of id ?table] x
  have a: "a = ''SELECT''"
    and rest: "\<forall>before from whereExpr kids rest.
        ?children = before @ Node (SelectStmt from whereExpr) kids # rest \<longrightarrow>
          (\<forall>j. from = Some (TableRefsClause (Some j)) \<longrightarrow> set (joinTables j) \<subseteq> set ts) \<and>
          ((\<forall>c\<in>set (kids @ rest). \<not> anyKind rendersWhere c) \<longrightarrow>
             w = WhereFilter (Enter id
               (foldl (Accept id) (Enter id newColX (InsertStmt ?table)) before)
               (SelectStmt from whereExpr)))"
    by simp_all
  from rest c quiet have "w = WhereFilter (Enter id
      (foldl (Accept id) (Enter id newColX (InsertStmt ?table)) []) ?sel)"
    by blast
  with flt have w: "w = ''users.active=0''" by simp
  from x cols prim tabs a w show ?thesis by simp
qed

section \<open>Properties of the DumpPlanGenerator\<close>

text \<open>
  Claim C8 says that every statement with a non-empty table list gets exactly one export
  directive for each table to export.  For
  \<^verbatim>\<open>UPDATE employees JOIN e ON employees.id = e.emp_id SET employees.x = 1
  WHERE e.a = 1 AND employees.b = 2\<close>
  the helper block is due, the joined table \<open>e\<close> starts with the letter of \<open>employees\<close>, and
  the two-byte alias \<^verbatim>\<open>strings.ToLower(tbl)[0:2]\<close> is cut from a one-byte name: the program
  panics in the middle of the third comment line, and no export directive is printed.
  (Whenever the run does not panic, the lines that are not comments are exactly the export
  directives of the tables to export: lemma \<open>dumpStatement_directives\<close>.)
\<close>

theorem runDumpStatement_panics:
  "runDumpStatement asciiToLower id [] ''database_name''
     (Node (UpdateStmt
        (Some (TableRefsClause (Some (Join (TableSource (SourceTableName ''employees'') [])
                                           (TableSource (SourceTableName ''e'') [])))))
        (Some (ExprNode (RestoreOK ''`e`.`a`=1 AND `employees`.`b`=2'')))) [])
   = Panic [''# To get exact rows matching all JOIN conditions:'',
            ''# Step 1: Get matching IDs'',
            ''# mysql -N -e '' @ [CHR 0x22] @ ''SELECT e.id FROM employees e '']"
  by code_simp

end
